theory Spec2Isabelle
  imports Main "HOL-Library.Word"
begin

section \<open>ICU types, error codes and C integers\<close>

text \<open>
  The file under verification, \<^verbatim>\<open>internal/icu/file.cpp\<close>, drives ICU's C regular
  expression interface (\<^verbatim>\<open>unicode/regex.h\<close>).  ICU itself is an external library:
  its functions are a parameter of the model (the record \<open>uregex\<close> below), so
  every theorem about \<open>replace\<close> holds for whatever the matcher answers, unless a
  hypothesis about the matcher is written out.
\<close>

type_synonym UChar = "16 word"

type_synonym UErrorCode = int

text \<open>The values of \<^verbatim>\<open>unicode/utypes.h\<close>; warnings are negative, errors positive.\<close>

definition U_ZERO_ERROR :: UErrorCode where
  "U_ZERO_ERROR = 0"

definition U_BUFFER_OVERFLOW_ERROR :: UErrorCode where
  "U_BUFFER_OVERFLOW_ERROR = 15"

definition U_STRING_NOT_TERMINATED_WARNING :: UErrorCode where
  "U_STRING_NOT_TERMINATED_WARNING = - 124"

definition U_ILLEGAL_ARGUMENT_ERROR :: UErrorCode where
  "U_ILLEGAL_ARGUMENT_ERROR = 1"

definition U_INDEX_OUTOFBOUNDS_ERROR :: UErrorCode where
  "U_INDEX_OUTOFBOUNDS_ERROR = 8"

definition U_REGEX_INVALID_STATE :: UErrorCode where
  "U_REGEX_INVALID_STATE = 66306"

definition U_SUCCESS :: "UErrorCode \<Rightarrow> bool" where
  "U_SUCCESS x = (x \<le> U_ZERO_ERROR)"

definition U_FAILURE :: "UErrorCode \<Rightarrow> bool" where
  "U_FAILURE x = (x > U_ZERO_ERROR)"

text \<open>
  What the C++ does outside the defined behaviour of the language or by throwing is a
  \<open>fault\<close>: \<open>LengthError\<close> is \<^verbatim>\<open>std::length_error\<close> from
  \<^verbatim>\<open>resize\<close>, \<open>SignedOverflow\<close> an \<^verbatim>\<open>int\<close> addition that leaves the range
  of \<^verbatim>\<open>int\<close>, \<open>ReadPastText\<close> a \<^verbatim>\<open>std::copy\<close> that reads behind the text
  the matcher handed out, \<open>WritePastBuffer\<close> a matcher that stores outside the window
  \<^verbatim>\<open>[ptr, ptr + capacity)\<close> it was given.
\<close>

datatype fault = LengthError | SignedOverflow | ReadPastText | WritePastBuffer

definition bindF :: "fault + 'a \<Rightarrow> ('a \<Rightarrow> fault + 'b) \<Rightarrow> fault + 'b" where
  "bindF x f = (case x of Inl e \<Rightarrow> Inl e | Inr v \<Rightarrow> f v)"

definition INT_MAX :: int where
  "INT_MAX = 2147483647"

definition INT_MIN :: int where
  "INT_MIN = - 2147483648"

text \<open>\<^verbatim>\<open>int + int\<close>: the sum, or undefined behaviour when it is not an \<^verbatim>\<open>int\<close>.\<close>

definition add_int :: "int \<Rightarrow> int \<Rightarrow> fault + int" where
  "add_int a b = (if INT_MIN \<le> a + b \<and> a + b \<le> INT_MAX then Inr (a + b) else Inl SignedOverflow)"

text \<open>Conversion of an integer value to \<^verbatim>\<open>int\<close> (32 bits, two's complement).\<close>

definition to_int :: "int \<Rightarrow> int" where
  "to_int x = (x + 2147483648) mod 4294967296 - 2147483648"

text \<open>
  Conversion of an \<^verbatim>\<open>int\<close> to \<^verbatim>\<open>size_t\<close> (64 bits): a negative value wraps.
  Values of type \<^verbatim>\<open>size_t\<close> are kept as integers in the model.
\<close>

definition to_size_t :: "int \<Rightarrow> int" where
  "to_size_t x = x mod 18446744073709551616"

text \<open>
  \<^verbatim>\<open>std::u16string::max_size()\<close>.  The value is the library's; all the model needs is
  that it lies between \<open>INT_MAX\<close> and \<open>2^64 - 2^31\<close>, so that a size that came from a
  non-negative \<^verbatim>\<open>int\<close> is accepted and one from a negative \<^verbatim>\<open>int\<close> is refused.
\<close>

definition max_size :: int where
  "max_size = 2305843009213693951"

text \<open>\<^verbatim>\<open>sizeof(UChar)\<close> and \<^verbatim>\<open>sizeof(UChar*)\<close> on the 64-bit targets of the package.\<close>

definition sizeof_UChar :: int where
  "sizeof_UChar = 2"

definition sizeof_UChar_ptr :: int where
  "sizeof_UChar_ptr = 8"

section \<open>The matcher interface\<close>

text \<open>
  The six ICU functions that \<^verbatim>\<open>file.cpp\<close> calls, over a matcher state \<open>'m\<close> (what
  \<^verbatim>\<open>URegularExpression*\<close> points to).  Each takes the incoming \<^verbatim>\<open>*status\<close> and
  gives back the outgoing one together with the matcher's new state.

  \<^item> \<open>uregex_find m startIndex status\<close> and \<open>uregex_findNext m status\<close> give whether a
    match was found;
  \<^item> \<open>uregex_end m groupNum status\<close> gives the end offset of the current match;
  \<^item> \<open>uregex_getText m status\<close> gives the text and the length stored through
    \<^verbatim>\<open>textLength\<close>;
  \<^item> \<open>uregex_appendReplacement m replacementText replacementLength capacity status\<close>
    and \<open>uregex_appendTail m capacity status\<close> give the returned length and the
    units the call stored through \<^verbatim>\<open>*destBuf\<close>, from \<^verbatim>\<open>(*destBuf)[0]\<close> on.
    The updated \<^verbatim>\<open>ptr\<close> and \<^verbatim>\<open>capacity\<close> are locals that the callers discard.
\<close>

record 'm uregex =
  uregex_find :: "'m \<Rightarrow> int \<Rightarrow> UErrorCode \<Rightarrow> bool \<times> 'm \<times> UErrorCode"
  uregex_findNext :: "'m \<Rightarrow> UErrorCode \<Rightarrow> bool \<times> 'm \<times> UErrorCode"
  uregex_end :: "'m \<Rightarrow> int \<Rightarrow> UErrorCode \<Rightarrow> int \<times> 'm \<times> UErrorCode"
  uregex_getText :: "'m \<Rightarrow> UErrorCode \<Rightarrow> UChar list \<times> int \<times> 'm \<times> UErrorCode"
  uregex_appendReplacement ::
    "'m \<Rightarrow> UChar list \<Rightarrow> int \<Rightarrow> int \<Rightarrow> UErrorCode \<Rightarrow> int \<times> UChar list \<times> 'm \<times> UErrorCode"
  uregex_appendTail :: "'m \<Rightarrow> int \<Rightarrow> UErrorCode \<Rightarrow> int \<times> UChar list \<times> 'm \<times> UErrorCode"

section \<open>The variables of \<^verbatim>\<open>replace\<close>\<close>

text \<open>
  \<open>calls\<close> is not a variable of the program: it records, in order, every call of the
  matcher, every \<^verbatim>\<open>resize\<close>, \<^verbatim>\<open>malloc\<close> and \<^verbatim>\<open>memcpy\<close>, and every entry
  into \<^verbatim>\<open>appendHead\<close>, \<^verbatim>\<open>appendReplacement\<close> and \<^verbatim>\<open>appendTail\<close>, so that
  statements about how often and in which order the code does these can be written down.
\<close>

datatype event =
    Call_find int bool
  | Call_end int
  | Call_findNext bool
  | Call_getText
  | Call_appendReplacement int int
  | Call_appendTail int int
  | Resize int
  | Enter_appendHead int
  | Enter_appendReplacement
  | Enter_appendTail
  | Malloc int
  | Memcpy int

record 'm vars =
  m_re :: 'm
  m_replace_buffer :: "UChar list"
  m_replace_buffer_pos :: int
  m_error_code :: UErrorCode
  calls :: "event list"

definition log_event :: "event \<Rightarrow> 'm vars \<Rightarrow> 'm vars" where
  "log_event ev st = st\<lparr>calls := calls st @ [ev]\<rparr>"

text \<open>\<^verbatim>\<open>m_replace_buffer.resize(n)\<close>: cut, or fill up with \<^verbatim>\<open>char16_t()\<close>.\<close>

definition resize :: "int \<Rightarrow> 'm vars \<Rightarrow> fault + 'm vars" where
  "resize n st =
     (if max_size < n then Inl LengthError
      else Inr (log_event (Resize n)
             (st\<lparr>m_replace_buffer :=
                   take (nat n) (m_replace_buffer st)
                   @ replicate (nat n - length (m_replace_buffer st)) 0\<rparr>)))"

text \<open>The matcher stores the units \<open>w\<close> from position \<open>p\<close> of the buffer on.\<close>

definition store :: "UChar list \<Rightarrow> nat \<Rightarrow> UChar list \<Rightarrow> UChar list" where
  "store buf p w = take p buf @ w @ drop (p + length w) buf"

section \<open>The functions of \<^verbatim>\<open>file.cpp\<close>\<close>

text \<open>
  \<^verbatim>\<open>appendHead\<close>.  The parameter \<^verbatim>\<open>size\<close> of the source is \<open>n\<close> here: the value of
  a \<^verbatim>\<open>size_t\<close>.  The copy reads the first \<open>n\<close> units of the text the matcher handed
  out.
\<close>

definition appendHead :: "'m uregex \<Rightarrow> 'm vars \<Rightarrow> int \<Rightarrow> fault + 'm vars" where
  "appendHead api st0 n =
     (let st = log_event (Enter_appendHead n) st0 in
      if n = 0 then Inr st
      else
        let (text, text_length32, m, ec) = uregex_getText api (m_re st) (m_error_code st);
            st1 = log_event Call_getText (st\<lparr>m_re := m, m_error_code := ec\<rparr>)
        in if m_error_code st1 \<noteq> U_ZERO_ERROR then Inr st1
           else bindF (if int (length (m_replace_buffer st1)) < n then resize n st1 else Inr st1)
             (\<lambda>st2. if int (length text) < n then Inl ReadPastText
                    else Inr (st2\<lparr>m_replace_buffer :=
                                    take (nat n) text @ drop (nat n) (m_replace_buffer st2),
                                  m_replace_buffer_pos := to_int n\<rparr>)))"

text \<open>
  The window handed to the matcher starts at \<^verbatim>\<open>&m_replace_buffer.at(0) + m_replace_buffer_pos\<close>
  and the capacity is \<^verbatim>\<open>m_replace_buffer.size() - m_replace_buffer_pos\<close>, computed in
  \<^verbatim>\<open>size_t\<close> and converted to \<^verbatim>\<open>int\<close>.  Units stored by the matcher land in the
  buffer when they lie inside it.
\<close>

definition stored_inside :: "'m vars \<Rightarrow> UChar list \<Rightarrow> bool" where
  "stored_inside st w =
     (w = [] \<or> (0 \<le> m_replace_buffer_pos st
                \<and> m_replace_buffer_pos st + int (length w) \<le> int (length (m_replace_buffer st))))"

definition tryToAppendReplacement ::
    "'m uregex \<Rightarrow> 'm vars \<Rightarrow> UChar list \<Rightarrow> int \<Rightarrow> fault + int \<times> 'm vars" where
  "tryToAppendReplacement api st replacement replacementLen =
     (if m_replace_buffer st = [] then Inr (0, st)
      else
        let capacity = to_int (int (length (m_replace_buffer st)) - m_replace_buffer_pos st);
            (n, w, m, ec) =
               uregex_appendReplacement api (m_re st) replacement replacementLen capacity (m_error_code st)
        in if \<not> stored_inside st w then Inl WritePastBuffer
           else Inr (n, log_event (Call_appendReplacement capacity n)
                      (st\<lparr>m_re := m, m_error_code := ec,
                          m_replace_buffer :=
                            store (m_replace_buffer st) (nat (m_replace_buffer_pos st)) w\<rparr>)))"

definition appendReplacement ::
    "'m uregex \<Rightarrow> 'm vars \<Rightarrow> UChar list \<Rightarrow> int \<Rightarrow> fault + 'm vars" where
  "appendReplacement api st0 replacement replacementLen =
     bindF (tryToAppendReplacement api (log_event Enter_appendReplacement st0) replacement replacementLen)
       (\<lambda>(replacement_size, st).
          bindF
            (if m_error_code st = U_BUFFER_OVERFLOW_ERROR then
               bindF (add_int (m_replace_buffer_pos st) replacement_size)
                 (\<lambda>required_buffer_size.
                    bindF (resize (to_size_t required_buffer_size) st)
                      (\<lambda>st1. bindF (tryToAppendReplacement api (st1\<lparr>m_error_code := U_ZERO_ERROR\<rparr>)
                                      replacement replacementLen)
                                (\<lambda>(_, st2). Inr st2)))
             else Inr st)
            (\<lambda>st3. bindF (add_int (m_replace_buffer_pos st3) replacement_size)
                     (\<lambda>p. Inr (st3\<lparr>m_replace_buffer_pos := p\<rparr>))))"

definition tryToAppendTail :: "'m uregex \<Rightarrow> 'm vars \<Rightarrow> fault + int \<times> 'm vars" where
  "tryToAppendTail api st =
     (if m_replace_buffer st = [] then Inr (0, st)
      else
        let capacity = to_int (int (length (m_replace_buffer st)) - m_replace_buffer_pos st);
            (n, w, m, ec) = uregex_appendTail api (m_re st) capacity (m_error_code st)
        in if \<not> stored_inside st w then Inl WritePastBuffer
           else Inr (n, log_event (Call_appendTail capacity n)
                      (st\<lparr>m_re := m, m_error_code := ec,
                          m_replace_buffer :=
                            store (m_replace_buffer st) (nat (m_replace_buffer_pos st)) w\<rparr>)))"

definition appendTail :: "'m uregex \<Rightarrow> 'm vars \<Rightarrow> fault + 'm vars" where
  "appendTail api st0 =
     bindF (tryToAppendTail api (log_event Enter_appendTail st0))
       (\<lambda>(tail_size, st).
          bindF
            (if m_error_code st = U_BUFFER_OVERFLOW_ERROR then
               bindF (add_int (m_replace_buffer_pos st) tail_size)
                 (\<lambda>required_buffer_size.
                    bindF (resize (to_size_t required_buffer_size) st)
                      (\<lambda>st1. bindF (tryToAppendTail api (st1\<lparr>m_error_code := U_ZERO_ERROR\<rparr>))
                                (\<lambda>(_, st2). Inr st2)))
             else Inr st)
            (\<lambda>st3. bindF (add_int (m_replace_buffer_pos st3) tail_size)
                     (\<lambda>p. Inr (st3\<lparr>m_replace_buffer_pos := p\<rparr>))))"

text \<open>The three matcher calls that \<^verbatim>\<open>replace\<close> makes itself.\<close>

definition call_find :: "'m uregex \<Rightarrow> 'm vars \<Rightarrow> int \<Rightarrow> bool \<times> 'm vars" where
  "call_find api st start =
     (let (found, m, ec) = uregex_find api (m_re st) start (m_error_code st)
      in (found, log_event (Call_find start found) (st\<lparr>m_re := m, m_error_code := ec\<rparr>)))"

definition call_findNext :: "'m uregex \<Rightarrow> 'm vars \<Rightarrow> bool \<times> 'm vars" where
  "call_findNext api st =
     (let (found, m, ec) = uregex_findNext api (m_re st) (m_error_code st)
      in (found, log_event (Call_findNext found) (st\<lparr>m_re := m, m_error_code := ec\<rparr>)))"

definition call_end :: "'m uregex \<Rightarrow> 'm vars \<Rightarrow> int \<times> 'm vars" where
  "call_end api st =
     (let (e, m, ec) = uregex_end api (m_re st) 0 (m_error_code st)
      in (e, log_event (Call_end e) (st\<lparr>m_re := m, m_error_code := ec\<rparr>)))"

text \<open>
  The loop of lines 66 to 69,
  \<^verbatim>\<open>for (int i = 1; i < occurrence && found; ++i)\<close>, from the values of \<^verbatim>\<open>i\<close>,
  \<^verbatim>\<open>found\<close> and \<^verbatim>\<open>end_of_previous_match\<close> at the loop head.  One round calls
  \<^verbatim>\<open>uregex_end\<close> and then \<^verbatim>\<open>uregex_findNext\<close>; the three arguments of the
  recursive call are the new \<^verbatim>\<open>found\<close>, the new \<^verbatim>\<open>end_of_previous_match\<close> and
  the variables after both calls.
\<close>

function skip_loop ::
    "'m uregex \<Rightarrow> int \<Rightarrow> int \<Rightarrow> bool \<Rightarrow> int \<Rightarrow> 'm vars \<Rightarrow> bool \<times> int \<times> 'm vars" where
  "skip_loop api occurrence i found end_of_previous_match st =
     (if i < occurrence \<and> found then
        skip_loop api occurrence (i + 1)
          (fst (call_findNext api (snd (call_end api st))))
          (fst (call_end api st))
          (snd (call_findNext api (snd (call_end api st))))
      else (found, end_of_previous_match, st))"
  by pat_completeness auto
termination
  by (relation "measure (\<lambda>(api, occurrence, i, found, e, st). nat (occurrence - i))") auto

declare skip_loop.simps [simp del]

text \<open>
  The loop of lines 74 to 76,
  \<^verbatim>\<open>do { appendReplacement(...); } while (occurrence == 0 && uregex_findNext(...));\<close>.
  Nothing in the code bounds the number of rounds: the loop ends when the matcher says
  so.  A run that never ends is \<open>None\<close>.
\<close>

partial_function (option) replace_loop ::
    "'m uregex \<Rightarrow> UChar list \<Rightarrow> int \<Rightarrow> int \<Rightarrow> 'm vars \<Rightarrow> (fault + 'm vars) option" where
  "replace_loop api replacement replacementLen occurrence st =
     (case appendReplacement api st replacement replacementLen of
        Inl e \<Rightarrow> Some (Inl e)
      | Inr st1 \<Rightarrow>
          if occurrence = 0 then
            (if fst (call_findNext api st1)
             then replace_loop api replacement replacementLen occurrence (snd (call_findNext api st1))
             else Some (Inr (snd (call_findNext api st1))))
          else Some (Inr st1))"

declare replace_loop.simps [code]

text \<open>
  What \<^verbatim>\<open>replace\<close> gives back: the pointer \<^verbatim>\<open>original\<close> it was called with, or a
  block from \<^verbatim>\<open>malloc\<close> (of which the caller reads \<open>returnSize\<close> units); the value
  stored through \<^verbatim>\<open>returnSize\<close>; and the record of calls.  There is no other output:
  \<^verbatim>\<open>m_error_code\<close> is a local variable of \<^verbatim>\<open>replace\<close>.
\<close>

datatype pointer = Original | Fresh "UChar list"

record outcome =
  returnStr :: pointer
  returnSize :: int
  trace :: "event list"

text \<open>
  Lines 79 to 83: cut the buffer to the cursor, copy it to a fresh block.  The number
  of bytes asked of \<^verbatim>\<open>malloc\<close> and the number of bytes \<^verbatim>\<open>memcpy\<close> moves are
  recorded as the code computes them; the units of the block that the caller can
  tell apart from garbage are the units of the buffer.
\<close>

definition finish :: "'m vars \<Rightarrow> fault + outcome" where
  "finish st =
     bindF (resize (to_size_t (m_replace_buffer_pos st)) st)
       (\<lambda>st1. Inr \<lparr>returnStr = Fresh (m_replace_buffer st1),
                   returnSize = to_int (int (length (m_replace_buffer st1))),
                   trace = calls st1 @
                     [Malloc (int (length (m_replace_buffer st1)) * sizeof_UChar_ptr),
                      Memcpy (int (length (m_replace_buffer st1)) * sizeof_UChar_ptr)]\<rparr>)"

text \<open>Lines 61 to 69: the first search and the skipping of \<open>occurrence - 1\<close> matches.\<close>

definition search :: "'m uregex \<Rightarrow> 'm \<Rightarrow> int \<Rightarrow> int \<Rightarrow> bool \<times> int \<times> 'm vars" where
  "search api regexp start occurrence =
     (let st = \<lparr>m_re = regexp, m_replace_buffer = [], m_replace_buffer_pos = 0,
                m_error_code = U_ZERO_ERROR, calls = []\<rparr>
      in skip_loop api occurrence 1 (fst (call_find api st start)) 0 (snd (call_find api st start)))"

text \<open>
  \<^verbatim>\<open>replace\<close>.  The text \<^verbatim>\<open>original\<close> points to is not a parameter of the model,
  since the function never reads it: it hands the pointer back or it does not.  The
  parameters of type \<^verbatim>\<open>int\<close> are integers; a caller passes values between
  \<open>INT_MIN\<close> and \<open>INT_MAX\<close>.
\<close>

definition replace ::
    "'m uregex \<Rightarrow> 'm \<Rightarrow> UChar list \<Rightarrow> int \<Rightarrow> int \<Rightarrow> int \<Rightarrow> int \<Rightarrow> (fault + outcome) option" where
  "replace api regexp replacement replacementLen originalSize start occurrence =
     (case search api regexp start occurrence of
        (found, end_of_previous_match, st) \<Rightarrow>
          if \<not> found \<and> U_SUCCESS (m_error_code st)
          then Some (Inr \<lparr>returnStr = Original, returnSize = originalSize, trace = calls st\<rparr>)
          else
            (case bindF (resize (to_size_t originalSize) st)
                    (\<lambda>st1. appendHead api st1 (to_size_t (max end_of_previous_match start))) of
               Inl e \<Rightarrow> Some (Inl e)
             | Inr st2 \<Rightarrow>
                 (case (if found then replace_loop api replacement replacementLen occurrence st2
                        else Some (Inr st2)) of
                    None \<Rightarrow> None
                  | Some (Inl e) \<Rightarrow> Some (Inl e)
                  | Some (Inr st3) \<Rightarrow> Some (bindF (appendTail api st3) finish))))"

section \<open>A matcher for literal patterns\<close>

text \<open>
  A matcher to run the code on: the pattern is a literal string (possibly empty), the
  replacement text is taken literally (no \<^verbatim>\<open>$\<close> and no backslash in it).  The six
  functions follow what ICU's \<^verbatim>\<open>uregex.cpp\<close> and \<^verbatim>\<open>rematch.cpp\<close> do for such
  a pattern on a UTF-16 text: \<open>fMatch\<close>, \<open>fMatchStart\<close>, \<open>fMatchEnd\<close> and
  \<open>fLastMatchEnd\<close> are the fields of ICU's matcher that the six functions read and
  write.  It serves the examples; the theorems for the claims are about every matcher.
\<close>

record lit_matcher =
  fText :: "UChar list"
  fPattern :: "UChar list"
  fMatch :: bool
  fMatchStart :: int
  fMatchEnd :: int
  fLastMatchEnd :: int

definition lit_search :: "UChar list \<Rightarrow> UChar list \<Rightarrow> nat \<Rightarrow> nat option" where
  "lit_search text pat p =
     List.find (\<lambda>q. take (length pat) (drop q text) = pat) [p..<Suc (length text)]"

definition lit_scan :: "lit_matcher \<Rightarrow> int \<Rightarrow> UErrorCode \<Rightarrow> bool \<times> lit_matcher \<times> UErrorCode" where
  "lit_scan m startPos status =
     (case lit_search (fText m) (fPattern m) (nat startPos) of
        None \<Rightarrow> (False, m\<lparr>fMatch := False\<rparr>, status)
      | Some q \<Rightarrow>
          (True, m\<lparr>fMatch := True, fLastMatchEnd := fMatchEnd m, fMatchStart := int q,
                   fMatchEnd := int q + int (length (fPattern m))\<rparr>, status))"

definition lit_findNext :: "lit_matcher \<Rightarrow> UErrorCode \<Rightarrow> bool \<times> lit_matcher \<times> UErrorCode" where
  "lit_findNext m status =
     (if U_FAILURE status then (False, m, status)
      else if fMatch m then
        (let m1 = m\<lparr>fLastMatchEnd := fMatchEnd m\<rparr> in
         if fMatchStart m = fMatchEnd m then
           (if int (length (fText m)) \<le> fMatchEnd m then (False, m1\<lparr>fMatch := False\<rparr>, status)
            else lit_scan m1 (fMatchEnd m + 1) status)
         else lit_scan m1 (fMatchEnd m) status)
      else if 0 \<le> fLastMatchEnd m then (False, m, status)
      else lit_scan m (fMatchEnd m) status)"

definition lit_find :: "lit_matcher \<Rightarrow> int \<Rightarrow> UErrorCode \<Rightarrow> bool \<times> lit_matcher \<times> UErrorCode" where
  "lit_find m startIndex status =
     (if U_FAILURE status then (False, m, status)
      else
        let m0 = m\<lparr>fMatch := False, fMatchStart := 0, fMatchEnd := 0, fLastMatchEnd := - 1\<rparr> in
        if startIndex = - 1 then lit_findNext m0 status
        else if startIndex < 0 \<or> int (length (fText m)) < startIndex
        then (False, m0, U_INDEX_OUTOFBOUNDS_ERROR)
        else lit_findNext (m0\<lparr>fMatchEnd := startIndex\<rparr>) status)"

definition lit_end :: "lit_matcher \<Rightarrow> int \<Rightarrow> UErrorCode \<Rightarrow> int \<times> lit_matcher \<times> UErrorCode" where
  "lit_end m groupNum status =
     (if U_FAILURE status then (0, m, status)
      else if \<not> fMatch m then (- 1, m, U_REGEX_INVALID_STATE)
      else if groupNum \<noteq> 0 then (- 1, m, U_INDEX_OUTOFBOUNDS_ERROR)
      else (fMatchEnd m, m, status))"

definition lit_getText :: "lit_matcher \<Rightarrow> UErrorCode \<Rightarrow> UChar list \<times> int \<times> lit_matcher \<times> UErrorCode" where
  "lit_getText m status =
     (if U_FAILURE status then ([], 0, m, status)
      else (fText m, int (length (fText m)), m, status))"

definition lit_deliver :: "UChar list \<Rightarrow> int \<Rightarrow> UErrorCode \<Rightarrow> bool \<Rightarrow> int \<times> UChar list \<times> UErrorCode" where
  "lit_deliver out capacity status pending =
     (let destIdx = int (length out);
          status1 = (if destIdx < capacity then status
                     else if \<not> U_SUCCESS status then status
                     else if destIdx = capacity then U_STRING_NOT_TERMINATED_WARNING
                     else U_BUFFER_OVERFLOW_ERROR)
      in (destIdx, take (nat capacity) (out @ [0]),
          if pending \<and> U_SUCCESS status1 then U_BUFFER_OVERFLOW_ERROR else status1))"

definition lit_appendReplacement ::
    "lit_matcher \<Rightarrow> UChar list \<Rightarrow> int \<Rightarrow> int \<Rightarrow> UErrorCode \<Rightarrow> int \<times> UChar list \<times> lit_matcher \<times> UErrorCode" where
  "lit_appendReplacement m replacementText replacementLength capacity status0 =
     (let pending = (status0 = U_BUFFER_OVERFLOW_ERROR \<and> capacity = 0);
          status = (if pending then U_ZERO_ERROR else status0)
      in if U_FAILURE status then (0, [], m, status)
         else if replacementLength < - 1 \<or> capacity < 0 then (0, [], m, U_ILLEGAL_ARGUMENT_ERROR)
         else if \<not> fMatch m then (0, [], m, U_REGEX_INVALID_STATE)
         else
           let r = (if replacementLength = - 1 then takeWhile (\<lambda>c. c \<noteq> 0) replacementText
                    else take (nat replacementLength) replacementText);
               out = take (nat (fMatchStart m - fLastMatchEnd m)) (drop (nat (fLastMatchEnd m)) (fText m)) @ r;
               (n, w, ec) = lit_deliver out capacity status pending
           in (n, w, m, ec))"

definition lit_appendTail ::
    "lit_matcher \<Rightarrow> int \<Rightarrow> UErrorCode \<Rightarrow> int \<times> UChar list \<times> lit_matcher \<times> UErrorCode" where
  "lit_appendTail m capacity status0 =
     (let pending = (status0 = U_BUFFER_OVERFLOW_ERROR \<and> capacity = 0);
          status = (if pending then U_ZERO_ERROR else status0)
      in if U_FAILURE status then (0, [], m, status)
         else if capacity < 0 then (0, [], m, U_ILLEGAL_ARGUMENT_ERROR)
         else
           let srcIdx = (if fMatch m then fMatchEnd m else fLastMatchEnd m);
               out = drop (nat (if srcIdx = - 1 then 0 else srcIdx)) (fText m);
               (n, w, ec) = lit_deliver out capacity status pending
           in (n, w, m, ec))"

definition lit :: "lit_matcher uregex" where
  "lit = \<lparr>uregex_find = lit_find, uregex_findNext = lit_findNext, uregex_end = lit_end,
          uregex_getText = lit_getText, uregex_appendReplacement = lit_appendReplacement,
          uregex_appendTail = lit_appendTail\<rparr>"

definition lit_open :: "UChar list \<Rightarrow> UChar list \<Rightarrow> lit_matcher" where
  "lit_open pat text =
     \<lparr>fText = text, fPattern = pat, fMatch = False, fMatchStart = 0, fMatchEnd = 0,
      fLastMatchEnd = - 1\<rparr>"

section \<open>A matcher that asks for too little\<close>

text \<open>
  The same matcher, except that an append which overflows reports one unit less than
  it needs.  ICU does not do this; it is the situation in which a retry after the resize
  overflows again.
\<close>

definition short_by_one ::
    "int \<times> UChar list \<times> 'm \<times> UErrorCode \<Rightarrow> int \<times> UChar list \<times> 'm \<times> UErrorCode" where
  "short_by_one r =
     (case r of (n, w, m, ec) \<Rightarrow> (if ec = U_BUFFER_OVERFLOW_ERROR then n - 1 else n, w, m, ec))"

definition stingy :: "lit_matcher uregex" where
  "stingy = lit\<lparr>uregex_appendReplacement :=
                    (\<lambda>m r l c ec. short_by_one (lit_appendReplacement m r l c ec)),
                uregex_appendTail := (\<lambda>m c ec. short_by_one (lit_appendTail m c ec))\<rparr>"

section \<open>Sample texts\<close>

text \<open>The UTF-16 code units of an ASCII string.\<close>

definition u16 :: "string \<Rightarrow> UChar list" where
  "u16 s = map (\<lambda>c. of_nat (of_char c)) s"

section \<open>Reading the record of calls\<close>

fun is_match :: "event \<Rightarrow> bool" where
  "is_match (Call_find s b) = b"
| "is_match (Call_findNext b) = b"
| "is_match ev = False"

fun is_findNext :: "event \<Rightarrow> bool" where
  "is_findNext (Call_findNext b) = True"
| "is_findNext ev = False"

fun is_search :: "event \<Rightarrow> bool" where
  "is_search (Call_find s b) = True"
| "is_search (Call_end e) = True"
| "is_search (Call_findNext b) = True"
| "is_search ev = False"

fun is_matcher_append :: "event \<Rightarrow> bool" where
  "is_matcher_append (Call_appendReplacement c n) = True"
| "is_matcher_append (Call_appendTail c n) = True"
| "is_matcher_append ev = False"

text \<open>Events of the buffer phase other than the entry into \<^verbatim>\<open>appendReplacement\<close>.\<close>

fun is_buffer_work :: "event \<Rightarrow> bool" where
  "is_buffer_work (Call_find s b) = False"
| "is_buffer_work (Call_end e) = False"
| "is_buffer_work (Call_findNext b) = False"
| "is_buffer_work Enter_appendReplacement = False"
| "is_buffer_work ev = True"

text \<open>The two events of the loop of lines 74 to 76.\<close>

definition is_loop_step :: "event \<Rightarrow> bool" where
  "is_loop_step ev = (ev = Enter_appendReplacement \<or> is_findNext ev)"

definition replacements :: "event list \<Rightarrow> nat" where
  "replacements tr = length (filter (\<lambda>ev. ev = Enter_appendReplacement) tr)"


text \<open>\<open>adds P st st'\<close>: from \<open>st\<close> to \<open>st'\<close> the record of calls grew by events in \<open>P\<close>.\<close>

definition adds :: "(event \<Rightarrow> bool) \<Rightarrow> 'm vars \<Rightarrow> 'm vars \<Rightarrow> bool" where
  "adds P st st' = (\<exists>ex. calls st' = calls st @ ex \<and> list_all P ex)"


text \<open>
  A bound on the number of matches the literal matcher can still find: the text left
  behind the current match, or the whole text when there is no current match.
\<close>

definition lit_remaining :: "lit_matcher \<Rightarrow> nat" where
  "lit_remaining m =
     (if fMatch m \<and> fMatchEnd m - fMatchStart m = int (length (fPattern m))
      then nat (int (length (fText m)) - fMatchEnd m)
      else length (fText m) + 1)"

text \<open>
  Events that leave an empty buffer empty: anything but a call of one of the matcher's
  two append functions and a resize to a size other than 0.
\<close>

fun is_idle :: "event \<Rightarrow> bool" where
  "is_idle (Call_appendReplacement c n) = False"
| "is_idle (Call_appendTail c n) = False"
| "is_idle (Resize n) = (n = 0)"
| "is_idle ev = True"

section \<open>Notions for the buffer\<close>

text \<open>
  The cursor lies inside the buffer, and the size of the buffer is a value of
  \<^verbatim>\<open>int\<close> (it came from an \<^verbatim>\<open>int\<close>).
\<close>

definition cursor_inside :: "'m vars \<Rightarrow> bool" where
  "cursor_inside st =
     (0 \<le> m_replace_buffer_pos st
      \<and> m_replace_buffer_pos st \<le> int (length (m_replace_buffer st))
      \<and> int (length (m_replace_buffer st)) \<le> INT_MAX)"

text \<open>
  \<open>untouched k st st'\<close>: the first \<open>k\<close> units of the buffer are the same in \<open>st'\<close> as
  in \<open>st\<close>, and the cursor of \<open>st'\<close> is behind them.
\<close>

definition untouched :: "nat \<Rightarrow> 'm vars \<Rightarrow> 'm vars \<Rightarrow> bool" where
  "untouched k st st' =
     (int k \<le> m_replace_buffer_pos st' \<and> k \<le> length (m_replace_buffer st')
      \<and> take k (m_replace_buffer st') = take k (m_replace_buffer st))"

text \<open>
  \<^verbatim>\<open>appendReplacement\<close> and \<^verbatim>\<open>appendTail\<close> are the same code around two
  different attempts.  \<open>retry_once\<close> is that code with the attempt as a parameter;
  the two are shown equal to instances of it below, so that what is proved once about
  \<open>retry_once\<close> holds for both.
\<close>

definition retry_once :: "('m vars \<Rightarrow> fault + int \<times> 'm vars) \<Rightarrow> 'm vars \<Rightarrow> fault + 'm vars" where
  "retry_once attempt st0 =
     bindF (attempt st0)
       (\<lambda>(n, st).
          bindF
            (if m_error_code st = U_BUFFER_OVERFLOW_ERROR then
               bindF (add_int (m_replace_buffer_pos st) n)
                 (\<lambda>required_buffer_size.
                    bindF (resize (to_size_t required_buffer_size) st)
                      (\<lambda>st1. bindF (attempt (st1\<lparr>m_error_code := U_ZERO_ERROR\<rparr>))
                                (\<lambda>(_, st2). Inr st2)))
             else Inr st)
            (\<lambda>st3. bindF (add_int (m_replace_buffer_pos st3) n)
                     (\<lambda>p. Inr (st3\<lparr>m_replace_buffer_pos := p\<rparr>))))"

text \<open>An attempt leaves the cursor, the size of the buffer and the units before the cursor alone.\<close>

definition in_window :: "('m vars \<Rightarrow> fault + int \<times> 'm vars) \<Rightarrow> bool" where
  "in_window attempt =
     (\<forall>st n st'. attempt st = Inr (n, st') \<longrightarrow>
        m_replace_buffer_pos st' = m_replace_buffer_pos st
        \<and> length (m_replace_buffer st') = length (m_replace_buffer st)
        \<and> (\<forall>k \<le> nat (m_replace_buffer_pos st).
              take k (m_replace_buffer st') = take k (m_replace_buffer st)))"

text \<open>
  The buffer after a first attempt that stored \<open>w1\<close> at \<open>p\<close>, the resize to \<open>p + n\<close> and a
  second attempt that stored \<open>w2\<close> at \<open>p\<close>.
\<close>

definition regrown :: "UChar list \<Rightarrow> nat \<Rightarrow> UChar list \<Rightarrow> nat \<Rightarrow> UChar list \<Rightarrow> UChar list" where
  "regrown buf p w1 n w2 =
     store (take (p + n) (store buf p w1) @ replicate (p + n - length (store buf p w1)) 0) p w2"

text \<open>
  The variables of \<open>replace\<close> when the second \<open>a\<close> of \<open>a-b-a-b\<close> is the current match
  and the buffer has room for one unit only.
\<close>

definition small_buffer :: "lit_matcher vars" where
  "small_buffer =
     \<lparr>m_re = \<lparr>fText = u16 ''a-b-a-b'', fPattern = u16 ''a'', fMatch = True,
              fMatchStart = 4, fMatchEnd = 5, fLastMatchEnd = 1\<rparr>,
      m_replace_buffer = [0], m_replace_buffer_pos = 0, m_error_code = U_ZERO_ERROR,
      calls = []\<rparr>"

section \<open>The matcher's side of an append\<close>

text \<open>
  What \<^verbatim>\<open>uregex_appendReplacement\<close> and \<^verbatim>\<open>uregex_appendTail\<close> are documented to do
  with the units \<open>out\<close> they have to append when there is room for \<open>capacity\<close> units:
  they return the length of \<open>out\<close>; they store the units of \<open>out\<close> that fit, and
  nothing outside the capacity (a terminating NUL behind \<open>out\<close> is allowed where there
  is room for it); they leave \<^verbatim>\<open>U_BUFFER_OVERFLOW_ERROR\<close> when \<open>out\<close> does not fit
  and a success code when it does.
\<close>

definition delivers :: "UChar list \<Rightarrow> int \<Rightarrow> int \<times> UChar list \<times> UErrorCode \<Rightarrow> bool" where
  "delivers out capacity r =
     (case r of (n, w, ec) \<Rightarrow>
        n = int (length out)
        \<and> int (length w) \<le> capacity
        \<and> take (length out) w = take (nat capacity) out
        \<and> (if capacity < n then ec = U_BUFFER_OVERFLOW_ERROR else U_SUCCESS ec))"

text \<open>
  \<open>appends_as api at_match tx replacement replacementLen before_and_new rest\<close>: in
  every state \<open>at_match\<close> of the matcher, called with a success code,
  \<^item> \<^verbatim>\<open>uregex_getText\<close> hands out the text \<open>tx\<close> and leaves the code alone,
  \<^item> \<^verbatim>\<open>uregex_appendReplacement\<close> with this replacement delivers \<open>before_and_new\<close>,
  \<^item> \<^verbatim>\<open>uregex_appendTail\<close> delivers \<open>rest\<close>,

  and each of the three leaves the matcher in such a state.  The states \<open>at_match\<close>
  are those in which one and the same match is the current one.
\<close>

definition appends_as ::
    "'m uregex \<Rightarrow> ('m \<Rightarrow> bool) \<Rightarrow> UChar list \<Rightarrow> UChar list \<Rightarrow> int \<Rightarrow> UChar list \<Rightarrow> UChar list \<Rightarrow> bool" where
  "appends_as api at_match tx replacement replacementLen before_and_new rest =
     (\<forall>m ec. at_match m \<and> U_SUCCESS ec \<longrightarrow>
        (case uregex_getText api m ec of (t, len, m', ec') \<Rightarrow> t = tx \<and> ec' = ec \<and> at_match m')
        \<and> (\<forall>c. 0 \<le> c \<longrightarrow>
              (case uregex_appendReplacement api m replacement replacementLen c ec of
                 (n, w, m', ec') \<Rightarrow> at_match m' \<and> delivers before_and_new c (n, w, ec'))
              \<and> (case uregex_appendTail api m c ec of
                   (n, w, m', ec') \<Rightarrow> at_match m' \<and> delivers rest c (n, w, ec'))))"

text \<open>
  A state of \<open>replace\<close> in which an append function of \<^verbatim>\<open>file.cpp\<close> reaches the
  matcher: the matcher is at the match, the code is a success code, the buffer is not
  empty and the cursor is inside it.
\<close>

definition ready :: "('m \<Rightarrow> bool) \<Rightarrow> 'm vars \<Rightarrow> bool" where
  "ready at_match s =
     (at_match (m_re s) \<and> U_SUCCESS (m_error_code s) \<and> m_replace_buffer s \<noteq> [] \<and> cursor_inside s)"

text \<open>
  \<open>hands_over at_match out attempt\<close>: in such a state the attempt does not fault,
  returns the length of \<open>out\<close> and has stored at the cursor what a matcher that
  delivers \<open>out\<close> stores.
\<close>

definition hands_over ::
    "('m \<Rightarrow> bool) \<Rightarrow> UChar list \<Rightarrow> ('m vars \<Rightarrow> fault + int \<times> 'm vars) \<Rightarrow> bool" where
  "hands_over at_match out attempt =
     (\<forall>s. ready at_match s \<longrightarrow>
        (\<exists>w s'. attempt s = Inr (int (length out), s')
           \<and> at_match (m_re s') \<and> m_replace_buffer_pos s' = m_replace_buffer_pos s
           \<and> m_replace_buffer s' = store (m_replace_buffer s) (nat (m_replace_buffer_pos s)) w
           \<and> delivers out (int (length (m_replace_buffer s)) - m_replace_buffer_pos s)
               (int (length out), w, m_error_code s')))"

section \<open>Basic facts\<close>

named_theorems icu_codes \<open>the numeric values of the ICU error codes\<close>

lemmas [icu_codes] =
  U_ZERO_ERROR_def U_BUFFER_OVERFLOW_ERROR_def U_STRING_NOT_TERMINATED_WARNING_def
  U_ILLEGAL_ARGUMENT_ERROR_def U_INDEX_OUTOFBOUNDS_ERROR_def U_REGEX_INVALID_STATE_def
  U_SUCCESS_def U_FAILURE_def

lemma bindF_Inl [simp]: "bindF (Inl e) f = Inl e"
  by (simp add: bindF_def)

lemma bindF_Inr [simp]: "bindF (Inr v) f = f v"
  by (simp add: bindF_def)

lemma bindF_eq_Inr: "bindF x f = Inr y \<longleftrightarrow> (\<exists>v. x = Inr v \<and> f v = Inr y)"
  by (cases x) simp_all

section \<open>The search phase\<close>

lemma call_find_calls: "calls (snd (call_find api st start)) = calls st @ [Call_find start (fst (call_find api st start))]"
  by (simp add: call_find_def log_event_def split: prod.splits)

lemma call_findNext_calls: "calls (snd (call_findNext api st)) = calls st @ [Call_findNext (fst (call_findNext api st))]"
  by (simp add: call_findNext_def log_event_def split: prod.splits)

lemma call_end_calls: "calls (snd (call_end api st)) = calls st @ [Call_end (fst (call_end api st))]"
  by (simp add: call_end_def log_event_def split: prod.splits)

lemma call_find_buffer:
  "m_replace_buffer (snd (call_find api st start)) = m_replace_buffer st"
  "m_replace_buffer_pos (snd (call_find api st start)) = m_replace_buffer_pos st"
  by (simp_all add: call_find_def log_event_def split: prod.splits)

lemma call_findNext_buffer:
  "m_replace_buffer (snd (call_findNext api st)) = m_replace_buffer st"
  "m_replace_buffer_pos (snd (call_findNext api st)) = m_replace_buffer_pos st"
  by (simp_all add: call_findNext_def log_event_def split: prod.splits)

lemma call_end_buffer:
  "m_replace_buffer (snd (call_end api st)) = m_replace_buffer st"
  "m_replace_buffer_pos (snd (call_end api st)) = m_replace_buffer_pos st"
  by (simp_all add: call_end_def log_event_def split: prod.splits)

lemma skip_loop_calls:
  "skip_loop api occ i found e st = (found', e', st') \<Longrightarrow>
   \<exists>ex. calls st' = calls st @ ex \<and> list_all is_search ex"
proof (induction api occ i found e st rule: skip_loop.induct)
  case (1 api occurrence i found e st)
  show ?case
  proof (cases "i < occurrence \<and> found")
    case True
    with "1.prems" have "skip_loop api occurrence (i + 1)
          (fst (call_findNext api (snd (call_end api st))))
          (fst (call_end api st))
          (snd (call_findNext api (snd (call_end api st)))) = (found', e', st')"
      by (subst (asm) skip_loop.simps) simp
    from "1.IH"[OF True this] obtain ex where
      "calls st' = calls (snd (call_findNext api (snd (call_end api st)))) @ ex" "list_all is_search ex"
      by blast
    then show ?thesis
      by (simp add: call_findNext_calls call_end_calls)
  next
    case False
    with "1.prems" show ?thesis
      by (subst (asm) skip_loop.simps) auto
  qed
qed

lemma skip_loop_buffer:
  "skip_loop api occ i found e st = (found', e', st') \<Longrightarrow>
   m_replace_buffer st' = m_replace_buffer st \<and> m_replace_buffer_pos st' = m_replace_buffer_pos st"
proof (induction api occ i found e st rule: skip_loop.induct)
  case (1 api occurrence i found e st)
  show ?case
  proof (cases "i < occurrence \<and> found")
    case True
    with "1.prems" have "skip_loop api occurrence (i + 1)
          (fst (call_findNext api (snd (call_end api st))))
          (fst (call_end api st))
          (snd (call_findNext api (snd (call_end api st)))) = (found', e', st')"
      by (subst (asm) skip_loop.simps) simp
    from "1.IH"[OF True this] show ?thesis
      by (simp add: call_findNext_buffer call_end_buffer)
  next
    case False
    with "1.prems" show ?thesis
      by (subst (asm) skip_loop.simps) auto
  qed
qed

lemma search_calls:
  "search api regexp start occurrence = (found, e, st) \<Longrightarrow> list_all is_search (calls st)"
  unfolding search_def Let_def
  by (drule skip_loop_calls) (auto simp: call_find_calls)

lemma search_buffer:
  "search api regexp start occurrence = (found, e, st) \<Longrightarrow>
   m_replace_buffer st = [] \<and> m_replace_buffer_pos st = 0"
  unfolding search_def Let_def
  by (drule skip_loop_buffer) (simp add: call_find_buffer)

lemma skip_loop_done:
  "\<not> (i < occurrence \<and> found) \<Longrightarrow> skip_loop api occurrence i found e st = (found, e, st)"
  by (subst skip_loop.simps) auto

lemma skip_loop_found:
  "skip_loop api occ i found e st = (True, e', st') \<Longrightarrow>
   found \<and> (\<exists>ends. int (length ends) = max 0 (occ - i)
      \<and> calls st' = calls st @ concat (map (\<lambda>x. [Call_end x, Call_findNext True]) ends)
      \<and> e' = last (e # ends))"
proof (induction api occ i found e st rule: skip_loop.induct)
  case (1 api occurrence i found e st)
  show ?case
  proof (cases "i < occurrence \<and> found")
    case True
    let ?e1 = "fst (call_end api st)"
    let ?s1 = "snd (call_end api st)"
    let ?f2 = "fst (call_findNext api ?s1)"
    let ?s2 = "snd (call_findNext api ?s1)"
    from True "1.prems" have "skip_loop api occurrence (i + 1) ?f2 ?e1 ?s2 = (True, e', st')"
      by (subst (asm) skip_loop.simps) simp
    from "1.IH"[OF True this] obtain ends where f2: ?f2
      and len: "int (length ends) = max 0 (occurrence - (i + 1))"
      and c: "calls st' = calls ?s2 @ concat (map (\<lambda>x. [Call_end x, Call_findNext True]) ends)"
      and e': "e' = last (?e1 # ends)"
      by blast
    have "int (length (?e1 # ends)) = max 0 (occurrence - i)"
      using len True by simp
    moreover have "calls st' = calls st @ concat (map (\<lambda>x. [Call_end x, Call_findNext True]) (?e1 # ends))"
      using c f2 by (simp add: call_findNext_calls call_end_calls)
    moreover have "e' = last (e # ?e1 # ends)"
      using e' by simp
    ultimately show ?thesis using True by blast
  next
    case False
    with "1.prems" have eq: "(found, e, st) = (True, e', st')"
      by (subst (asm) skip_loop.simps) simp
    with False have "int (length ([] :: int list)) = max 0 (occurrence - i)"
      by simp
    with eq show ?thesis
      by (intro conjI exI[of _ "[]"]) simp_all
  qed
qed

lemma search_found:
  assumes "search api regexp start k = (True, e, st)"
  shows "\<exists>ends. int (length ends) = max 0 (k - 1)
      \<and> calls st = Call_find start True # concat (map (\<lambda>x. [Call_end x, Call_findNext True]) ends)
      \<and> e = last (0 # ends)"
proof -
  let ?st0 = "\<lparr>m_re = regexp, m_replace_buffer = [], m_replace_buffer_pos = 0,
                m_error_code = U_ZERO_ERROR, calls = []\<rparr>"
  from assms have "skip_loop api k 1 (fst (call_find api ?st0 start)) 0 (snd (call_find api ?st0 start)) = (True, e, st)"
    by (simp add: search_def Let_def)
  from skip_loop_found[OF this] obtain ends where f: "fst (call_find api ?st0 start)"
    and l: "int (length ends) = max 0 (k - 1)"
    and c: "calls st = calls (snd (call_find api ?st0 start))
               @ concat (map (\<lambda>x. [Call_end x, Call_findNext True]) ends)"
    and e: "e = last (0 # ends)"
    by blast
  from c f have "calls st = Call_find start True # concat (map (\<lambda>x. [Call_end x, Call_findNext True]) ends)"
    by (simp add: call_find_calls)
  with l e show ?thesis by blast
qed

lemma search_negative:
  "occurrence \<le> 1 \<Longrightarrow>
   search api regexp start occurrence =
     (fst (call_find api \<lparr>m_re = regexp, m_replace_buffer = [], m_replace_buffer_pos = 0,
                m_error_code = U_ZERO_ERROR, calls = []\<rparr> start), 0,
      snd (call_find api \<lparr>m_re = regexp, m_replace_buffer = [], m_replace_buffer_pos = 0,
                m_error_code = U_ZERO_ERROR, calls = []\<rparr> start))"
  by (simp add: search_def Let_def skip_loop_done)

section \<open>What each function adds to the record of calls\<close>

lemma adds_refl [simp]: "adds P st st"
  by (simp add: adds_def)

lemma adds_trans: "adds P a b \<Longrightarrow> adds P b c \<Longrightarrow> adds P a c"
  by (auto simp: adds_def)

lemma adds_log_event: "P ev \<Longrightarrow> adds P st (log_event ev st)"
  by (simp add: adds_def log_event_def)

lemma resize_Inr:
  "resize n st = Inr st' \<Longrightarrow>
   st' = st\<lparr>m_replace_buffer := take (nat n) (m_replace_buffer st)
                                  @ replicate (nat n - length (m_replace_buffer st)) 0,
            calls := calls st @ [Resize n]\<rparr>"
  by (auto simp: resize_def log_event_def split: if_splits)

lemma resize_adds: "resize n st = Inr st' \<Longrightarrow> adds is_buffer_work st st'"
  by (auto simp: adds_def dest!: resize_Inr)


lemma tryToAppendReplacement_adds:
  "tryToAppendReplacement api st r l = Inr (n, st') \<Longrightarrow> adds is_buffer_work st st'"
  by (auto simp: tryToAppendReplacement_def adds_def log_event_def Let_def
           split: if_splits prod.splits)

lemma tryToAppendTail_adds:
  "tryToAppendTail api st = Inr (n, st') \<Longrightarrow> adds is_buffer_work st st'"
  by (auto simp: tryToAppendTail_def adds_def log_event_def Let_def
           split: if_splits prod.splits)

lemma adds_error_code [simp]: "adds P a (b\<lparr>m_error_code := ec\<rparr>) = adds P a b"
  "adds P (a\<lparr>m_error_code := ec\<rparr>) b = adds P a b"
  by (simp_all add: adds_def)

lemma adds_pos [simp]: "adds P a (b\<lparr>m_replace_buffer_pos := p\<rparr>) = adds P a b"
  by (simp_all add: adds_def)

lemma appendReplacement_adds:
  assumes "appendReplacement api st r l = Inr st'"
  shows "adds is_buffer_work (log_event Enter_appendReplacement st) st'"
proof -
  let ?s0 = "log_event Enter_appendReplacement st"
  from assms obtain n s1 s3 where
    t1: "tryToAppendReplacement api ?s0 r l = Inr (n, s1)"
    and mid: "(if m_error_code s1 = U_BUFFER_OVERFLOW_ERROR then
               bindF (add_int (m_replace_buffer_pos s1) n)
                 (\<lambda>required_buffer_size.
                    bindF (resize (to_size_t required_buffer_size) s1)
                      (\<lambda>st1. bindF (tryToAppendReplacement api (st1\<lparr>m_error_code := U_ZERO_ERROR\<rparr>) r l)
                                (\<lambda>(_, st2). Inr st2)))
             else Inr s1) = Inr s3"
    and fin: "bindF (add_int (m_replace_buffer_pos s3) n) (\<lambda>p. Inr (s3\<lparr>m_replace_buffer_pos := p\<rparr>)) = Inr st'"
    unfolding appendReplacement_def by (auto simp: bindF_eq_Inr)
  have a1: "adds is_buffer_work ?s0 s1"
    using t1 by (rule tryToAppendReplacement_adds)
  have a2: "adds is_buffer_work s1 s3"
  proof (cases "m_error_code s1 = U_BUFFER_OVERFLOW_ERROR")
    case True
    with mid obtain q s2 k where r: "resize q s1 = Inr s2"
      and t2: "tryToAppendReplacement api (s2\<lparr>m_error_code := U_ZERO_ERROR\<rparr>) r l = Inr (k, s3)"
      by (auto simp: bindF_eq_Inr)
    from tryToAppendReplacement_adds[OF t2] resize_adds[OF r] show ?thesis
      by (auto intro: adds_trans)
  next
    case False
    with mid show ?thesis by simp
  qed
  from fin have a3: "adds is_buffer_work s3 st'"
    by (auto simp: bindF_eq_Inr)
  from a1 a2 a3 show ?thesis by (blast intro: adds_trans)
qed

lemma appendTail_adds:
  assumes "appendTail api st = Inr st'"
  shows "adds is_buffer_work st st'"
proof -
  let ?s0 = "log_event Enter_appendTail st"
  from assms obtain n s1 s3 where
    t1: "tryToAppendTail api ?s0 = Inr (n, s1)"
    and mid: "(if m_error_code s1 = U_BUFFER_OVERFLOW_ERROR then
               bindF (add_int (m_replace_buffer_pos s1) n)
                 (\<lambda>required_buffer_size.
                    bindF (resize (to_size_t required_buffer_size) s1)
                      (\<lambda>st1. bindF (tryToAppendTail api (st1\<lparr>m_error_code := U_ZERO_ERROR\<rparr>))
                                (\<lambda>(_, st2). Inr st2)))
             else Inr s1) = Inr s3"
    and fin: "bindF (add_int (m_replace_buffer_pos s3) n) (\<lambda>p. Inr (s3\<lparr>m_replace_buffer_pos := p\<rparr>)) = Inr st'"
    unfolding appendTail_def by (auto simp: bindF_eq_Inr)
  have a0: "adds is_buffer_work st ?s0"
    by (simp add: adds_log_event)
  have a1: "adds is_buffer_work ?s0 s1"
    using t1 by (rule tryToAppendTail_adds)
  have a2: "adds is_buffer_work s1 s3"
  proof (cases "m_error_code s1 = U_BUFFER_OVERFLOW_ERROR")
    case True
    with mid obtain q s2 k where r: "resize q s1 = Inr s2"
      and t2: "tryToAppendTail api (s2\<lparr>m_error_code := U_ZERO_ERROR\<rparr>) = Inr (k, s3)"
      by (auto simp: bindF_eq_Inr)
    from tryToAppendTail_adds[OF t2] resize_adds[OF r] show ?thesis
      by (auto intro: adds_trans)
  next
    case False
    with mid show ?thesis by simp
  qed
  from fin have a3: "adds is_buffer_work s3 st'"
    by (auto simp: bindF_eq_Inr)
  from a0 a1 a2 a3 show ?thesis by (blast intro: adds_trans)
qed

lemma finish_trace:
  "finish st = Inr out \<Longrightarrow> \<exists>ex. trace out = calls st @ ex \<and> list_all is_buffer_work ex"
  by (auto simp: finish_def bindF_eq_Inr dest!: resize_Inr)

lemma buffer_work_not_loop_step: "is_buffer_work ev \<Longrightarrow> \<not> is_loop_step ev"
  by (cases ev) (simp_all add: is_loop_step_def)

lemma buffer_work_not_match: "is_buffer_work ev \<Longrightarrow> \<not> is_match ev"
  by (cases ev) simp_all

lemma buffer_work_not_findNext: "is_buffer_work ev \<Longrightarrow> \<not> is_findNext ev"
  by (cases ev) simp_all

lemma buffer_work_not_enter: "is_buffer_work ev \<Longrightarrow> ev \<noteq> Enter_appendReplacement"
  by (cases ev) simp_all

lemma filter_buffer_work:
  assumes "list_all is_buffer_work ex"
  shows "filter is_loop_step ex = []" "filter is_match ex = []" "filter is_findNext ex = []"
    "filter (\<lambda>ev. ev = Enter_appendReplacement) ex = []"
  using assms
  by (auto simp: list_all_iff filter_empty_conv buffer_work_not_loop_step buffer_work_not_match
      buffer_work_not_findNext buffer_work_not_enter)


lemma tail_phase_trace:
  "bindF (appendTail api st) finish = Inr out \<Longrightarrow>
   \<exists>ex. trace out = calls st @ ex \<and> list_all is_buffer_work ex"
  by (auto simp: bindF_eq_Inr adds_def dest!: appendTail_adds finish_trace)

section \<open>The replacement loop\<close>

lemma replace_loop_once:
  "occurrence \<noteq> 0 \<Longrightarrow>
   replace_loop api r l occurrence st = Some (appendReplacement api st r l)"
  by (subst replace_loop.simps) (simp split: sum.splits)

lemma replace_found_nonzero:
  assumes "occurrence \<noteq> 0" and "search api regexp start occurrence = (True, e, st)"
  shows "replace api regexp replacement replacementLen originalSize start occurrence =
     Some (bindF (bindF (bindF (resize (to_size_t originalSize) st)
                           (\<lambda>st1. appendHead api st1 (to_size_t (max e start))))
                    (\<lambda>st2. appendReplacement api st2 replacement replacementLen))
             (\<lambda>st3. bindF (appendTail api st3) finish))"
proof (cases "bindF (resize (to_size_t originalSize) st)
                (\<lambda>st1. appendHead api st1 (to_size_t (max e start)))")
  case (Inl f)
  with assms show ?thesis by (simp add: replace_def)
next
  case (Inr st2)
  with assms show ?thesis
    by (cases "appendReplacement api st2 replacement replacementLen")
       (simp_all add: replace_def replace_loop_once)
qed








section \<open>The literal matcher runs out of matches\<close>

lemma lit_search_Some:
  assumes "lit_search text pat p = Some q"
  shows "p \<le> q" "q + length pat \<le> length text"
proof -
  from assms obtain i where i: "i < length [p..<Suc (length text)]"
    and P: "take (length pat) (drop ([p..<Suc (length text)] ! i) text) = pat"
    and q: "q = [p..<Suc (length text)] ! i"
    unfolding lit_search_def find_Some_iff by blast
  from i q have q': "q = p + i" by (simp del: upt_Suc)
  then show "p \<le> q" by simp
  from i q' have "q \<le> length text" by (simp del: upt_Suc)
  moreover from P q have "length (take (length pat) (drop q text)) = length pat" by simp
  ultimately show "q + length pat \<le> length text" by (simp add: min_def split: if_splits)
qed

lemma lit_scan_True:
  assumes "lit_scan m s ec = (True, m', ec')"
  shows "fMatch m' \<and> fMatchEnd m' - fMatchStart m' = int (length (fPattern m'))
         \<and> fText m' = fText m \<and> fPattern m' = fPattern m
         \<and> fMatchEnd m' \<le> int (length (fText m))
         \<and> int (nat s) + int (length (fPattern m)) \<le> fMatchEnd m'"
  using assms
  by (auto simp: lit_scan_def split: option.splits dest: lit_search_Some)

lemma lit_findNext_decreases:
  assumes "lit_findNext m ec = (True, m', ec')"
  shows "lit_remaining m' < lit_remaining m"
proof (cases "fMatch m")
  case True
  show ?thesis
  proof (cases "fMatchStart m = fMatchEnd m")
    case z: True
    with True assms have "lit_scan (m\<lparr>fLastMatchEnd := fMatchEnd m\<rparr>) (fMatchEnd m + 1) ec = (True, m', ec')"
      by (auto simp: lit_findNext_def Let_def split: if_splits)
    from lit_scan_True[OF this] True z show ?thesis
      by (auto simp: lit_remaining_def split: if_splits)
  next
    case nz: False
    with True assms have "lit_scan (m\<lparr>fLastMatchEnd := fMatchEnd m\<rparr>) (fMatchEnd m) ec = (True, m', ec')"
      by (auto simp: lit_findNext_def Let_def split: if_splits)
    from lit_scan_True[OF this] True nz show ?thesis
      by (auto simp: lit_remaining_def split: if_splits)
  qed
next
  case False
  with assms have "lit_scan m (fMatchEnd m) ec = (True, m', ec')"
    by (auto simp: lit_findNext_def Let_def split: if_splits)
  from lit_scan_True[OF this] False show ?thesis
    by (auto simp: lit_remaining_def split: if_splits)
qed


lemma lit_dec: "uregex_findNext lit m e = (True, m', e') \<Longrightarrow> lit_remaining m' < lit_remaining m"
  by (simp add: lit_def lit_findNext_decreases)


section \<open>No qualifying match\<close>

text \<open>
  C1.  When the search phase (the first \<^verbatim>\<open>uregex_find\<close> and the skipping of
  \<open>occurrence - 1\<close> matches) ends without a match and with a success code,
  \<open>replace\<close> returns the pointer \<^verbatim>\<open>original\<close> and stores \<open>originalSize\<close> through
  \<^verbatim>\<open>returnSize\<close>.  Everything it has done up to then is calling \<^verbatim>\<open>uregex_find\<close>,
  \<^verbatim>\<open>uregex_end\<close> and \<^verbatim>\<open>uregex_findNext\<close>: no \<^verbatim>\<open>resize\<close>, no \<^verbatim>\<open>malloc\<close>.
\<close>

theorem replace_without_match:
  assumes "search api regexp start occurrence = (False, e, st)"
    and "U_SUCCESS (m_error_code st)"
  shows "replace api regexp replacement replacementLen originalSize start occurrence =
           Some (Inr \<lparr>returnStr = Original, returnSize = originalSize, trace = calls st\<rparr>)
         \<and> list_all is_search (calls st)"
  using assms search_calls[OF assms(1)] by (simp add: replace_def)

text \<open>The pattern \<open>a\<close> has two matches in \<open>a-b-a-b\<close>; the fifth is asked for.\<close>

lemma search_fifth_a:
  "search lit (lit_open (u16 ''a'') (u16 ''a-b-a-b'')) 0 5 =
     (False, 5,
      \<lparr>m_re = \<lparr>fText = u16 ''a-b-a-b'', fPattern = u16 ''a'', fMatch = False,
               fMatchStart = 4, fMatchEnd = 5, fLastMatchEnd = 5\<rparr>,
       m_replace_buffer = [], m_replace_buffer_pos = 0, m_error_code = U_ZERO_ERROR,
       calls = [Call_find 0 True, Call_end 1, Call_findNext True, Call_end 5,
                Call_findNext False]\<rparr>)"
  by code_simp

theorem replace_without_match_witness:
  "replace lit (lit_open (u16 ''a'') (u16 ''a-b-a-b'')) (u16 ''X'') 1 7 0 5 =
     Some (Inr \<lparr>returnStr = Original, returnSize = 7,
                trace = [Call_find 0 True, Call_end 1, Call_findNext True, Call_end 5,
                         Call_findNext False]\<rparr>)
   \<and> list_all is_search
        [Call_find 0 True, Call_end 1, Call_findNext True, Call_end 5, Call_findNext False]"
  using replace_without_match [OF search_fifth_a, of "u16 ''X''" 1 7] by (simp add: icu_codes)

section \<open>Selector 0: every match\<close>




section \<open>Integers and the buffer\<close>

lemma to_int_id: "INT_MIN \<le> x \<Longrightarrow> x \<le> INT_MAX \<Longrightarrow> to_int x = x"
  by (simp add: to_int_def INT_MIN_def INT_MAX_def)

lemma to_size_t_id: "0 \<le> x \<Longrightarrow> x \<le> INT_MAX \<Longrightarrow> to_size_t x = x"
  by (simp add: to_size_t_def INT_MAX_def)

lemma to_size_t_negative: "INT_MIN \<le> x \<Longrightarrow> x < 0 \<Longrightarrow> max_size < to_size_t x"
proof -
  assume a: "INT_MIN \<le> x" "x < 0"
  then have "(x + 18446744073709551616) mod 18446744073709551616 = x + 18446744073709551616"
    by (intro mod_pos_pos_trivial) (simp_all add: INT_MIN_def)
  then have "x mod 18446744073709551616 = x + 18446744073709551616"
    by simp
  with a show ?thesis
    by (simp add: to_size_t_def max_size_def INT_MIN_def)
qed

lemma add_int_Inr: "add_int a b = Inr c \<longleftrightarrow> c = a + b \<and> INT_MIN \<le> a + b \<and> a + b \<le> INT_MAX"
  by (auto simp: add_int_def)

lemma length_store: "w = [] \<or> p + length w \<le> length buf \<Longrightarrow> length (store buf p w) = length buf"
  by (auto simp: store_def)

lemma take_store: "w = [] \<or> p + length w \<le> length buf \<Longrightarrow> k \<le> p \<Longrightarrow> take k (store buf p w) = take k buf"
  by (auto simp: store_def min_def)

lemma store_here: "p + length w \<le> length buf \<Longrightarrow> take (length w) (drop p (store buf p w)) = w"
  by (simp add: store_def)

lemma stored_inside_nat:
  "stored_inside st w \<Longrightarrow> w = [] \<or> nat (m_replace_buffer_pos st) + length w \<le> length (m_replace_buffer st)"
  by (auto simp: stored_inside_def)

lemma tryToAppendReplacement_Inr:
  assumes "tryToAppendReplacement api st r l = Inr (n, st')"
  shows "m_replace_buffer_pos st' = m_replace_buffer_pos st"
    and "length (m_replace_buffer st') = length (m_replace_buffer st)"
    and "k \<le> nat (m_replace_buffer_pos st) \<Longrightarrow> take k (m_replace_buffer st') = take k (m_replace_buffer st)"
  using assms
  by (auto simp: tryToAppendReplacement_def log_event_def Let_def length_store take_store
      split: if_splits prod.splits dest!: stored_inside_nat)

lemma tryToAppendTail_Inr:
  assumes "tryToAppendTail api st = Inr (n, st')"
  shows "m_replace_buffer_pos st' = m_replace_buffer_pos st"
    and "length (m_replace_buffer st') = length (m_replace_buffer st)"
    and "k \<le> nat (m_replace_buffer_pos st) \<Longrightarrow> take k (m_replace_buffer st') = take k (m_replace_buffer st)"
  using assms
  by (auto simp: tryToAppendTail_def log_event_def Let_def length_store take_store
      split: if_splits prod.splits dest!: stored_inside_nat)

section \<open>One attempt, one resize, one more attempt\<close>

lemma appendReplacement_retry_once:
  "appendReplacement api st r l =
     retry_once (\<lambda>s. tryToAppendReplacement api s r l) (log_event Enter_appendReplacement st)"
  by (simp add: appendReplacement_def retry_once_def)

lemma appendTail_retry_once:
  "appendTail api st = retry_once (tryToAppendTail api) (log_event Enter_appendTail st)"
  by (simp add: appendTail_def retry_once_def)

lemma in_window_replacement: "in_window (\<lambda>s. tryToAppendReplacement api s r l)"
  unfolding in_window_def by (blast dest: tryToAppendReplacement_Inr)

lemma in_window_tail: "in_window (tryToAppendTail api)"
  unfolding in_window_def by (blast dest: tryToAppendTail_Inr)

lemma retry_once_Inr:
  assumes "retry_once attempt st0 = Inr st'"
  obtains (fits) n s1 where "attempt st0 = Inr (n, s1)" "m_error_code s1 \<noteq> U_BUFFER_OVERFLOW_ERROR"
      "st' = s1\<lparr>m_replace_buffer_pos := m_replace_buffer_pos s1 + n\<rparr>"
      "INT_MIN \<le> m_replace_buffer_pos s1 + n" "m_replace_buffer_pos s1 + n \<le> INT_MAX"
  | (grown) n s1 s2 k s3 where "attempt st0 = Inr (n, s1)" "m_error_code s1 = U_BUFFER_OVERFLOW_ERROR"
      "INT_MIN \<le> m_replace_buffer_pos s1 + n" "m_replace_buffer_pos s1 + n \<le> INT_MAX"
      "resize (to_size_t (m_replace_buffer_pos s1 + n)) s1 = Inr s2"
      "attempt (s2\<lparr>m_error_code := U_ZERO_ERROR\<rparr>) = Inr (k, s3)"
      "st' = s3\<lparr>m_replace_buffer_pos := m_replace_buffer_pos s3 + n\<rparr>"
      "INT_MIN \<le> m_replace_buffer_pos s3 + n" "m_replace_buffer_pos s3 + n \<le> INT_MAX"
proof -
  from assms obtain n s1 s3 where
    t1: "attempt st0 = Inr (n, s1)"
    and mid: "(if m_error_code s1 = U_BUFFER_OVERFLOW_ERROR then
               bindF (add_int (m_replace_buffer_pos s1) n)
                 (\<lambda>required_buffer_size.
                    bindF (resize (to_size_t required_buffer_size) s1)
                      (\<lambda>st1. bindF (attempt (st1\<lparr>m_error_code := U_ZERO_ERROR\<rparr>))
                                (\<lambda>(_, st2). Inr st2)))
             else Inr s1) = Inr s3"
    and fin: "bindF (add_int (m_replace_buffer_pos s3) n) (\<lambda>p. Inr (s3\<lparr>m_replace_buffer_pos := p\<rparr>)) = Inr st'"
    unfolding retry_once_def by (auto simp: bindF_eq_Inr)
  from fin have st': "st' = s3\<lparr>m_replace_buffer_pos := m_replace_buffer_pos s3 + n\<rparr>"
    and r3: "INT_MIN \<le> m_replace_buffer_pos s3 + n" "m_replace_buffer_pos s3 + n \<le> INT_MAX"
    by (auto simp: bindF_eq_Inr add_int_Inr)
  show thesis
  proof (cases "m_error_code s1 = U_BUFFER_OVERFLOW_ERROR")
    case False
    with mid have "s3 = s1" by simp
    with t1 False st' r3 show thesis by (intro fits) simp_all
  next
    case True
    with mid obtain s2 k where "INT_MIN \<le> m_replace_buffer_pos s1 + n" "m_replace_buffer_pos s1 + n \<le> INT_MAX"
      "resize (to_size_t (m_replace_buffer_pos s1 + n)) s1 = Inr s2"
      "attempt (s2\<lparr>m_error_code := U_ZERO_ERROR\<rparr>) = Inr (k, s3)"
      by (auto simp: bindF_eq_Inr add_int_Inr)
    with t1 True st' r3 show thesis by (intro grown) simp_all
  qed
qed

lemma resize_ok:
  assumes "resize (to_size_t q) s = Inr s'" "INT_MIN \<le> q" "q \<le> INT_MAX"
  shows "0 \<le> q" "length (m_replace_buffer s') = nat q"
    "m_replace_buffer_pos s' = m_replace_buffer_pos s"
    "k \<le> nat q \<Longrightarrow> k \<le> length (m_replace_buffer s) \<Longrightarrow> take k (m_replace_buffer s') = take k (m_replace_buffer s)"
proof -
  from assms(1) have "to_size_t q \<le> max_size"
    by (auto simp: resize_def split: if_splits)
  with to_size_t_negative[OF assms(2)] show q: "0 \<le> q" by force
  with assms(3) have t: "to_size_t q = q" by (simp add: to_size_t_id)
  from resize_Inr[OF assms(1)] t show "length (m_replace_buffer s') = nat q"
    "m_replace_buffer_pos s' = m_replace_buffer_pos s"
    by auto
  from resize_Inr[OF assms(1)] t
  show "k \<le> nat q \<Longrightarrow> k \<le> length (m_replace_buffer s) \<Longrightarrow> take k (m_replace_buffer s') = take k (m_replace_buffer s)"
    by (auto simp: min_def)
qed

lemma retry_once_cursor_inside:
  assumes w: "in_window attempt"
    and fits: "\<And>st n st'. attempt st = Inr (n, st') \<Longrightarrow> cursor_inside st \<Longrightarrow>
        U_SUCCESS (m_error_code st') \<Longrightarrow>
        0 \<le> n \<and> m_replace_buffer_pos st + n \<le> int (length (m_replace_buffer st))"
    and c: "cursor_inside st0"
    and r: "retry_once attempt st0 = Inr st'" and ok: "U_SUCCESS (m_error_code st')"
  shows "cursor_inside st'"
  using r
proof (cases rule: retry_once_Inr)
  case (fits n s1)
  from w fits(1) have "m_replace_buffer_pos s1 = m_replace_buffer_pos st0"
    "length (m_replace_buffer s1) = length (m_replace_buffer st0)"
    by (auto simp: in_window_def)
  moreover from assms(2)[OF fits(1) c] ok fits(3)
  have "0 \<le> n \<and> m_replace_buffer_pos st0 + n \<le> int (length (m_replace_buffer st0))" by simp
  ultimately show ?thesis using c fits(3) by (simp add: cursor_inside_def)
next
  case (grown n s1 s2 k s3)
  from resize_ok[OF grown(5,3,4)] have "0 \<le> m_replace_buffer_pos s1 + n"
    "length (m_replace_buffer s2) = nat (m_replace_buffer_pos s1 + n)"
    "m_replace_buffer_pos s2 = m_replace_buffer_pos s1"
    by simp_all
  moreover from w grown(6) have "m_replace_buffer_pos s3 = m_replace_buffer_pos s2"
    "length (m_replace_buffer s3) = length (m_replace_buffer s2)"
    by (auto simp: in_window_def)
  ultimately show ?thesis using grown(7,4) by (simp add: cursor_inside_def)
qed

lemma retry_once_untouched:
  assumes w: "in_window attempt"
    and nonneg: "\<And>st n st'. attempt st = Inr (n, st') \<Longrightarrow> 0 \<le> n"
    and k: "int k \<le> m_replace_buffer_pos st0" "k \<le> length (m_replace_buffer st0)"
    and r: "retry_once attempt st0 = Inr st'"
  shows "untouched k st0 st'"
  using r
proof (cases rule: retry_once_Inr)
  case (fits n s1)
  from w fits(1) k have "m_replace_buffer_pos s1 = m_replace_buffer_pos st0"
    "length (m_replace_buffer s1) = length (m_replace_buffer st0)"
    "take k (m_replace_buffer s1) = take k (m_replace_buffer st0)"
    by (auto simp: in_window_def)
  with nonneg[OF fits(1)] k fits(3) show ?thesis
    by (simp add: untouched_def)
next
  case (grown n s1 s2 j s3)
  from w grown(1) k have s1: "m_replace_buffer_pos s1 = m_replace_buffer_pos st0"
    "length (m_replace_buffer s1) = length (m_replace_buffer st0)"
    "take k (m_replace_buffer s1) = take k (m_replace_buffer st0)"
    by (auto simp: in_window_def)
  have n: "0 \<le> n" using nonneg[OF grown(1)] .
  with k s1 have kq: "k \<le> nat (m_replace_buffer_pos s1 + n)" by simp
  from resize_ok[OF grown(5,3,4)] kq k s1 have s2:
    "length (m_replace_buffer s2) = nat (m_replace_buffer_pos s1 + n)"
    "m_replace_buffer_pos s2 = m_replace_buffer_pos s1"
    "take k (m_replace_buffer s2) = take k (m_replace_buffer s1)"
    by simp_all
  from w grown(6) k s1 s2 have s3: "m_replace_buffer_pos s3 = m_replace_buffer_pos s2"
    "length (m_replace_buffer s3) = length (m_replace_buffer s2)"
    "take k (m_replace_buffer s3) = take k (m_replace_buffer s2)"
    by (auto simp: in_window_def)
  from s1 s2 s3 n k kq grown(7) show ?thesis
    by (simp add: untouched_def)
qed

lemma tryToAppendReplacement_call:
  assumes "m_replace_buffer st \<noteq> []"
    and "uregex_appendReplacement api (m_re st) r l
           (to_int (int (length (m_replace_buffer st)) - m_replace_buffer_pos st)) (m_error_code st)
         = (n, w, m, ec)"
    and "stored_inside st w"
  shows "tryToAppendReplacement api st r l =
     Inr (n, st\<lparr>m_re := m, m_error_code := ec,
                m_replace_buffer := store (m_replace_buffer st) (nat (m_replace_buffer_pos st)) w,
                calls := calls st @ [Call_appendReplacement
                   (to_int (int (length (m_replace_buffer st)) - m_replace_buffer_pos st)) n]\<rparr>)"
  using assms by (simp add: tryToAppendReplacement_def Let_def log_event_def)

lemma tryToAppendTail_call:
  assumes "m_replace_buffer st \<noteq> []"
    and "uregex_appendTail api (m_re st)
           (to_int (int (length (m_replace_buffer st)) - m_replace_buffer_pos st)) (m_error_code st)
         = (n, w, m, ec)"
    and "stored_inside st w"
  shows "tryToAppendTail api st =
     Inr (n, st\<lparr>m_re := m, m_error_code := ec,
                m_replace_buffer := store (m_replace_buffer st) (nat (m_replace_buffer_pos st)) w,
                calls := calls st @ [Call_appendTail
                   (to_int (int (length (m_replace_buffer st)) - m_replace_buffer_pos st)) n]\<rparr>)"
  using assms by (simp add: tryToAppendTail_def Let_def log_event_def)

lemma regrown_facts:
  assumes "p \<le> length buf" "p + length w1 \<le> length buf" "length w2 \<le> n"
  shows "length (regrown buf p w1 n w2) = p + n"
    and "take p (regrown buf p w1 n w2) = take p buf"
    and "take (length w2) (drop p (regrown buf p w1 n w2)) = w2"
proof -
  let ?b1 = "store buf p w1"
  let ?b2 = "take (p + n) ?b1 @ replicate (p + n - length ?b1) 0"
  have l1: "length ?b1 = length buf" using assms by (simp add: length_store)
  have l2: "length ?b2 = p + n" by simp
  have w2: "p + length w2 \<le> length ?b2" using assms l2 by linarith
  show "length (regrown buf p w1 n w2) = p + n"
    unfolding regrown_def using length_store[of w2 p ?b2] w2 l2 by simp
  have "take p ?b2 = take p ?b1" using assms l1 by (simp add: min_def)
  also have "\<dots> = take p buf" using assms by (simp add: take_store)
  finally have "take p ?b2 = take p buf" .
  then show "take p (regrown buf p w1 n w2) = take p buf"
    unfolding regrown_def using take_store[of w2 p ?b2 p] w2 by simp
  show "take (length w2) (drop p (regrown buf p w1 n w2)) = w2"
    unfolding regrown_def using w2 by (rule store_here)
qed

lemma regrown_exact:
  assumes "p \<le> length buf" "p + length w1 \<le> length buf" "length w2 = n"
  shows "regrown buf p w1 n w2 = take p buf @ w2"
proof -
  let ?b = "regrown buf p w1 n w2"
  have le: "length w2 \<le> n" using assms(3) by simp
  note f = regrown_facts[OF assms(1,2) le]
  have "?b = take p ?b @ drop p ?b" by simp
  also have "drop p ?b = take (length w2) (drop p ?b)" using f(1) assms(3) by simp
  finally show ?thesis using f(2,3) by simp
qed

lemma retry_once_grown:
  assumes "attempt st0 = Inr (n, s1)" "m_error_code s1 = U_BUFFER_OVERFLOW_ERROR"
    "add_int (m_replace_buffer_pos s1) n = Inr q" "resize (to_size_t q) s1 = Inr s2"
    "attempt (s2\<lparr>m_error_code := U_ZERO_ERROR\<rparr>) = Inr (k, s3)"
    "add_int (m_replace_buffer_pos s3) n = Inr p"
  shows "retry_once attempt st0 = Inr (s3\<lparr>m_replace_buffer_pos := p\<rparr>)"
  using assms by (simp add: retry_once_def)

lemma appendReplacement_overflow:
  assumes c: "cursor_inside st" and ne: "m_replace_buffer st \<noteq> []"
    and cap: "cap = int (length (m_replace_buffer st)) - m_replace_buffer_pos st"
    and first: "uregex_appendReplacement api (m_re st) r l cap (m_error_code st)
                = (n, w1, m1, U_BUFFER_OVERFLOW_ERROR)"
    and w1: "int (length w1) \<le> cap"
    and more: "cap < n" and q: "m_replace_buffer_pos st + n \<le> INT_MAX"
    and retry: "uregex_appendReplacement api m1 r l n U_ZERO_ERROR = (n', w2, m2, e2)"
    and w2: "int (length w2) \<le> n"
  shows "appendReplacement api st r l =
     Inr (st\<lparr>m_re := m2, m_error_code := e2,
             m_replace_buffer := regrown (m_replace_buffer st) (nat (m_replace_buffer_pos st)) w1 (nat n) w2,
             m_replace_buffer_pos := m_replace_buffer_pos st + n,
             calls := calls st @ [Enter_appendReplacement, Call_appendReplacement cap n,
                                  Resize (m_replace_buffer_pos st + n), Call_appendReplacement n n']\<rparr>)"
proof -
  let ?p = "m_replace_buffer_pos st"
  let ?buf = "m_replace_buffer st"
  let ?s0 = "log_event Enter_appendReplacement st"
  from c have p: "0 \<le> ?p" "?p \<le> int (length ?buf)" "int (length ?buf) \<le> INT_MAX"
    by (simp_all add: cursor_inside_def)
  then have capv: "to_int (int (length ?buf) - ?p) = cap" "0 \<le> cap"
    using cap by (auto simp: INT_MIN_def intro!: to_int_id)
  have in1: "stored_inside ?s0 w1"
    using w1 cap p by (simp add: stored_inside_def log_event_def)
  let ?s1 = "?s0\<lparr>m_re := m1, m_error_code := U_BUFFER_OVERFLOW_ERROR,
                m_replace_buffer := store ?buf (nat ?p) w1,
                calls := calls ?s0 @ [Call_appendReplacement cap n]\<rparr>"
  have t1: "tryToAppendReplacement api ?s0 r l = Inr (n, ?s1)"
    using tryToAppendReplacement_call[of ?s0 api r l n w1 m1 U_BUFFER_OVERFLOW_ERROR]
      ne first in1 capv by (simp add: log_event_def)
  have n: "0 < n" "n \<le> INT_MAX" "0 \<le> ?p + n" using more capv p q by linarith+
  have a1: "add_int (m_replace_buffer_pos ?s1) n = Inr (?p + n)"
    using n q p by (simp add: add_int_def INT_MIN_def log_event_def)
  have sz: "to_size_t (?p + n) = ?p + n" using n q by (simp add: to_size_t_id)
  let ?b2 = "take (nat (?p + n)) (store ?buf (nat ?p) w1)
             @ replicate (nat (?p + n) - length (store ?buf (nat ?p) w1)) 0"
  let ?s2 = "?s1\<lparr>m_replace_buffer := ?b2, calls := calls ?s1 @ [Resize (?p + n)]\<rparr>"
  have r: "resize (to_size_t (?p + n)) ?s1 = Inr ?s2"
    using q sz by (simp add: resize_def log_event_def INT_MAX_def max_size_def)
  have l2: "length ?b2 = nat (?p + n)" by simp
  let ?s2' = "?s2\<lparr>m_error_code := U_ZERO_ERROR\<rparr>"
  have ne2: "m_replace_buffer ?s2' \<noteq> []" using l2 n p by auto
  have cap2: "to_int (int (length (m_replace_buffer ?s2')) - m_replace_buffer_pos ?s2') = n"
    using l2 n p by (simp add: log_event_def to_int_id INT_MIN_def)
  have in2: "stored_inside ?s2' w2"
    using w2 l2 n p by (simp add: stored_inside_def log_event_def)
  let ?s3 = "?s2'\<lparr>m_re := m2, m_error_code := e2,
                m_replace_buffer := store ?b2 (nat ?p) w2,
                calls := calls ?s2' @ [Call_appendReplacement n n']\<rparr>"
  have t2: "tryToAppendReplacement api ?s2' r l = Inr (n', ?s3)"
    using tryToAppendReplacement_call[of ?s2' api r l n' w2 m2 e2] ne2 in2 retry
    unfolding cap2 by (simp add: log_event_def)
  have a3: "add_int (m_replace_buffer_pos ?s3) n = Inr (?p + n)"
    using n q p by (simp add: add_int_def INT_MIN_def log_event_def)
  have nn: "nat (?p + n) = nat ?p + nat n" using p n by (simp add: nat_add_distrib)
  have "m_error_code ?s1 = U_BUFFER_OVERFLOW_ERROR" by simp
  from retry_once_grown[OF t1 this a1 r t2 a3]
  have "appendReplacement api st r l = Inr (?s3\<lparr>m_replace_buffer_pos := ?p + n\<rparr>)"
    by (simp only: appendReplacement_retry_once)
  then show ?thesis
    by (simp add: log_event_def regrown_def nn)
qed

lemma appendTail_overflow:
  assumes c: "cursor_inside st" and ne: "m_replace_buffer st \<noteq> []"
    and cap: "cap = int (length (m_replace_buffer st)) - m_replace_buffer_pos st"
    and first: "uregex_appendTail api (m_re st) cap (m_error_code st)
                = (n, w1, m1, U_BUFFER_OVERFLOW_ERROR)"
    and w1: "int (length w1) \<le> cap"
    and more: "cap < n" and q: "m_replace_buffer_pos st + n \<le> INT_MAX"
    and retry: "uregex_appendTail api m1 n U_ZERO_ERROR = (n', w2, m2, e2)"
    and w2: "int (length w2) \<le> n"
  shows "appendTail api st =
     Inr (st\<lparr>m_re := m2, m_error_code := e2,
             m_replace_buffer := regrown (m_replace_buffer st) (nat (m_replace_buffer_pos st)) w1 (nat n) w2,
             m_replace_buffer_pos := m_replace_buffer_pos st + n,
             calls := calls st @ [Enter_appendTail, Call_appendTail cap n,
                                  Resize (m_replace_buffer_pos st + n), Call_appendTail n n']\<rparr>)"
proof -
  let ?p = "m_replace_buffer_pos st"
  let ?buf = "m_replace_buffer st"
  let ?s0 = "log_event Enter_appendTail st"
  from c have p: "0 \<le> ?p" "?p \<le> int (length ?buf)" "int (length ?buf) \<le> INT_MAX"
    by (simp_all add: cursor_inside_def)
  then have capv: "to_int (int (length ?buf) - ?p) = cap" "0 \<le> cap"
    using cap by (auto simp: INT_MIN_def intro!: to_int_id)
  have in1: "stored_inside ?s0 w1"
    using w1 cap p by (simp add: stored_inside_def log_event_def)
  let ?s1 = "?s0\<lparr>m_re := m1, m_error_code := U_BUFFER_OVERFLOW_ERROR,
                m_replace_buffer := store ?buf (nat ?p) w1,
                calls := calls ?s0 @ [Call_appendTail cap n]\<rparr>"
  have t1: "tryToAppendTail api ?s0 = Inr (n, ?s1)"
    using tryToAppendTail_call[of ?s0 api n w1 m1 U_BUFFER_OVERFLOW_ERROR]
      ne first in1 capv by (simp add: log_event_def)
  have n: "0 < n" "n \<le> INT_MAX" "0 \<le> ?p + n" using more capv p q by linarith+
  have a1: "add_int (m_replace_buffer_pos ?s1) n = Inr (?p + n)"
    using n q p by (simp add: add_int_def INT_MIN_def log_event_def)
  have sz: "to_size_t (?p + n) = ?p + n" using n q by (simp add: to_size_t_id)
  let ?b2 = "take (nat (?p + n)) (store ?buf (nat ?p) w1)
             @ replicate (nat (?p + n) - length (store ?buf (nat ?p) w1)) 0"
  let ?s2 = "?s1\<lparr>m_replace_buffer := ?b2, calls := calls ?s1 @ [Resize (?p + n)]\<rparr>"
  have r: "resize (to_size_t (?p + n)) ?s1 = Inr ?s2"
    using q sz by (simp add: resize_def log_event_def INT_MAX_def max_size_def)
  have l2: "length ?b2 = nat (?p + n)" by simp
  let ?s2' = "?s2\<lparr>m_error_code := U_ZERO_ERROR\<rparr>"
  have ne2: "m_replace_buffer ?s2' \<noteq> []" using l2 n p by auto
  have cap2: "to_int (int (length (m_replace_buffer ?s2')) - m_replace_buffer_pos ?s2') = n"
    using l2 n p by (simp add: log_event_def to_int_id INT_MIN_def)
  have in2: "stored_inside ?s2' w2"
    using w2 l2 n p by (simp add: stored_inside_def log_event_def)
  let ?s3 = "?s2'\<lparr>m_re := m2, m_error_code := e2,
                m_replace_buffer := store ?b2 (nat ?p) w2,
                calls := calls ?s2' @ [Call_appendTail n n']\<rparr>"
  have t2: "tryToAppendTail api ?s2' = Inr (n', ?s3)"
    using tryToAppendTail_call[of ?s2' api n' w2 m2 e2] ne2 in2 retry
    unfolding cap2 by (simp add: log_event_def)
  have a3: "add_int (m_replace_buffer_pos ?s3) n = Inr (?p + n)"
    using n q p by (simp add: add_int_def INT_MIN_def log_event_def)
  have nn: "nat (?p + n) = nat ?p + nat n" using p n by (simp add: nat_add_distrib)
  have "m_error_code ?s1 = U_BUFFER_OVERFLOW_ERROR" by simp
  from retry_once_grown[OF t1 this a1 r t2 a3]
  have "appendTail api st = Inr (?s3\<lparr>m_replace_buffer_pos := ?p + n\<rparr>)"
    by (simp only: appendTail_retry_once)
  then show ?thesis
    by (simp add: log_event_def regrown_def nn)
qed

section \<open>The cursor stays inside the buffer\<close>

lemma cursor_inside_log [simp]: "cursor_inside (log_event ev st) = cursor_inside st"
  by (simp add: cursor_inside_def log_event_def)

lemma tryToAppendReplacement_fits:
  assumes contract: "\<And>m r l c e n w m' e'.
      uregex_appendReplacement api m r l c e = (n, w, m', e') \<Longrightarrow> U_SUCCESS e' \<Longrightarrow> 0 \<le> c \<Longrightarrow>
      0 \<le> n \<and> n \<le> c"
    and t: "tryToAppendReplacement api st r l = Inr (n, st')"
    and c: "cursor_inside st" and ok: "U_SUCCESS (m_error_code st')"
  shows "0 \<le> n \<and> m_replace_buffer_pos st + n \<le> int (length (m_replace_buffer st))"
proof (cases "m_replace_buffer st = []")
  case True
  with t c show ?thesis
    by (simp add: tryToAppendReplacement_def cursor_inside_def)
next
  case False
  let ?cap = "int (length (m_replace_buffer st)) - m_replace_buffer_pos st"
  from c have cap: "to_int ?cap = ?cap" "0 \<le> ?cap"
    by (auto simp: cursor_inside_def INT_MIN_def intro!: to_int_id)
  from False t cap obtain w m where
    "uregex_appendReplacement api (m_re st) r l ?cap (m_error_code st) = (n, w, m, m_error_code st')"
    by (auto simp: tryToAppendReplacement_def Let_def log_event_def split: prod.splits if_splits)
  from contract[OF this ok cap(2)] show ?thesis by simp
qed

lemma tryToAppendTail_fits:
  assumes contract: "\<And>m c e n w m' e'.
      uregex_appendTail api m c e = (n, w, m', e') \<Longrightarrow> U_SUCCESS e' \<Longrightarrow> 0 \<le> c \<Longrightarrow>
      0 \<le> n \<and> n \<le> c"
    and t: "tryToAppendTail api st = Inr (n, st')"
    and c: "cursor_inside st" and ok: "U_SUCCESS (m_error_code st')"
  shows "0 \<le> n \<and> m_replace_buffer_pos st + n \<le> int (length (m_replace_buffer st))"
proof (cases "m_replace_buffer st = []")
  case True
  with t c show ?thesis
    by (simp add: tryToAppendTail_def cursor_inside_def)
next
  case False
  let ?cap = "int (length (m_replace_buffer st)) - m_replace_buffer_pos st"
  from c have cap: "to_int ?cap = ?cap" "0 \<le> ?cap"
    by (auto simp: cursor_inside_def INT_MIN_def intro!: to_int_id)
  from False t cap obtain w m where
    "uregex_appendTail api (m_re st) ?cap (m_error_code st) = (n, w, m, m_error_code st')"
    by (auto simp: tryToAppendTail_def Let_def log_event_def split: prod.splits if_splits)
  from contract[OF this ok cap(2)] show ?thesis by simp
qed

lemma appendHead_cursor_inside:
  assumes x: "INT_MIN \<le> x" "x \<le> INT_MAX"
    and h: "appendHead api st (to_size_t x) = Inr st'"
    and c: "cursor_inside st"
  shows "cursor_inside st'"
proof (cases "to_size_t x = 0")
  case True
  with h c show ?thesis by (auto simp: appendHead_def Let_def)
next
  case False
  obtain tx tl m ec where gt: "uregex_getText api (m_re st) (m_error_code st) = (tx, tl, m, ec)"
    by (cases "uregex_getText api (m_re st) (m_error_code st)") auto
  show ?thesis
  proof (cases "ec = U_ZERO_ERROR")
    case ne: False
    with h False gt c show ?thesis
      by (auto simp: appendHead_def Let_def log_event_def cursor_inside_def)
  next
    case True
    let ?s1 = "log_event Call_getText (log_event (Enter_appendHead (to_size_t x)) st\<lparr>m_re := m, m_error_code := ec\<rparr>)"
    from h False gt True obtain s2 where
      r: "(if int (length (m_replace_buffer ?s1)) < to_size_t x then resize (to_size_t x) ?s1 else Inr ?s1) = Inr s2"
      and t: "int (length tx) \<ge> to_size_t x"
      and st': "st' = s2\<lparr>m_replace_buffer := take (nat (to_size_t x)) tx @ drop (nat (to_size_t x)) (m_replace_buffer s2),
                        m_replace_buffer_pos := to_int (to_size_t x)\<rparr>"
      by (auto simp: appendHead_def Let_def bindF_eq_Inr log_event_def split: if_splits)
    have b1: "m_replace_buffer ?s1 = m_replace_buffer st"
      by (simp add: log_event_def)
    have pos: "0 \<le> x"
    proof (rule ccontr)
      assume "\<not> 0 \<le> x"
      with x have big: "max_size < to_size_t x" by (intro to_size_t_negative) simp_all
      with c b1 have "int (length (m_replace_buffer ?s1)) < to_size_t x"
        by (simp add: cursor_inside_def INT_MAX_def max_size_def)
      with r big show False by (simp add: resize_def)
    qed
    with x have n: "to_size_t x = x" by (simp add: to_size_t_id)
    have "x \<le> int (length (m_replace_buffer s2)) \<and> int (length (m_replace_buffer s2)) \<le> INT_MAX"
    proof (cases "int (length (m_replace_buffer ?s1)) < to_size_t x")
      case True
      with r have "resize (to_size_t x) ?s1 = Inr s2" by simp
      from resize_ok(2)[OF this x] pos x show ?thesis by simp
    next
      case False
      with r b1 c n show ?thesis by (auto simp: cursor_inside_def)
    qed
    then have b2: "nat x \<le> length (m_replace_buffer s2)" "int (length (m_replace_buffer s2)) \<le> INT_MAX"
      by linarith+
    from t n have "nat x \<le> length tx" by linarith
    with b2 have "length (take (nat x) tx @ drop (nat x) (m_replace_buffer s2)) = length (m_replace_buffer s2)"
      by simp
    with st' n pos x b2 show ?thesis
      by (simp add: cursor_inside_def to_int_id INT_MIN_def del: length_append)
  qed
qed

lemma lit_deliver_fits:
  "lit_deliver out c status pending = (n, w, ec) \<Longrightarrow> U_SUCCESS ec \<Longrightarrow> \<not> U_FAILURE status \<Longrightarrow>
   0 \<le> n \<and> n \<le> c"
  by (auto simp: lit_deliver_def Let_def icu_codes split: if_splits)

lemma lit_appendReplacement_fits:
  "uregex_appendReplacement lit m r l c e = (n, w, m', e') \<Longrightarrow> U_SUCCESS e' \<Longrightarrow> 0 \<le> c \<Longrightarrow>
   0 \<le> n \<and> n \<le> c"
  by (auto simp: lit_def lit_appendReplacement_def Let_def icu_codes
      split: if_splits prod.splits dest!: lit_deliver_fits)

lemma lit_appendTail_fits:
  "uregex_appendTail lit m c e = (n, w, m', e') \<Longrightarrow> U_SUCCESS e' \<Longrightarrow> 0 \<le> c \<Longrightarrow>
   0 \<le> n \<and> n \<le> c"
  by (auto simp: lit_def lit_appendTail_def Let_def icu_codes
      split: if_splits prod.splits dest!: lit_deliver_fits)

text \<open>
  C8.  Let the matcher keep to the contract of an append with a capacity: when it leaves
  a success code, the length it returns is at most the capacity it was given.  If the
  cursor lies inside the buffer before \<^verbatim>\<open>appendHead\<close>, \<^verbatim>\<open>appendReplacement\<close> or
  \<^verbatim>\<open>appendTail\<close>, it lies inside the buffer after it, whenever the append ends with
  a success code (for \<^verbatim>\<open>appendHead\<close>: whenever it returns).  Either the units fit,
  or the buffer was resized to cursor + length before the cursor moved.  A matcher that
  stores outside the window it was given is a fault of the model, not a result.
\<close>

theorem cursor_stays_inside:
  assumes fitsR: "\<And>m r l c e n w m' e'.
      uregex_appendReplacement api m r l c e = (n, w, m', e') \<Longrightarrow> U_SUCCESS e' \<Longrightarrow> 0 \<le> c \<Longrightarrow>
      0 \<le> n \<and> n \<le> c"
    and fitsT: "\<And>m c e n w m' e'.
      uregex_appendTail api m c e = (n, w, m', e') \<Longrightarrow> U_SUCCESS e' \<Longrightarrow> 0 \<le> c \<Longrightarrow>
      0 \<le> n \<and> n \<le> c"
    and c: "cursor_inside st"
  shows "(\<forall>x st'. INT_MIN \<le> x \<and> x \<le> INT_MAX \<and> appendHead api st (to_size_t x) = Inr st'
            \<longrightarrow> cursor_inside st')
       \<and> (\<forall>r l st'. appendReplacement api st r l = Inr st' \<and> U_SUCCESS (m_error_code st')
            \<longrightarrow> cursor_inside st')
       \<and> (\<forall>st'. appendTail api st = Inr st' \<and> U_SUCCESS (m_error_code st')
            \<longrightarrow> cursor_inside st')"
proof (intro conjI allI impI)
  fix x st'
  assume "INT_MIN \<le> x \<and> x \<le> INT_MAX \<and> appendHead api st (to_size_t x) = Inr st'"
  with c show "cursor_inside st'"
    by (blast intro: appendHead_cursor_inside)
next
  fix r l st'
  assume a: "appendReplacement api st r l = Inr st' \<and> U_SUCCESS (m_error_code st')"
  show "cursor_inside st'"
  proof (rule retry_once_cursor_inside[OF in_window_replacement])
    show "retry_once (\<lambda>s. tryToAppendReplacement api s r l) (log_event Enter_appendReplacement st) = Inr st'"
      using a by (simp add: appendReplacement_retry_once)
    show "cursor_inside (log_event Enter_appendReplacement st)" using c by simp
    show "U_SUCCESS (m_error_code st')" using a by simp
    show "0 \<le> n \<and> m_replace_buffer_pos s + n \<le> int (length (m_replace_buffer s))"
      if "tryToAppendReplacement api s r l = Inr (n, s')" "cursor_inside s" "U_SUCCESS (m_error_code s')"
      for s n s'
      using that by (rule tryToAppendReplacement_fits[rotated]) (erule (2) fitsR)
  qed
next
  fix st'
  assume a: "appendTail api st = Inr st' \<and> U_SUCCESS (m_error_code st')"
  show "cursor_inside st'"
  proof (rule retry_once_cursor_inside[OF in_window_tail])
    show "retry_once (tryToAppendTail api) (log_event Enter_appendTail st) = Inr st'"
      using a by (simp add: appendTail_retry_once)
    show "cursor_inside (log_event Enter_appendTail st)" using c by simp
    show "U_SUCCESS (m_error_code st')" using a by simp
    show "0 \<le> n \<and> m_replace_buffer_pos s + n \<le> int (length (m_replace_buffer s))"
      if "tryToAppendTail api s = Inr (n, s')" "cursor_inside s" "U_SUCCESS (m_error_code s')"
      for s n s'
      using that by (rule tryToAppendTail_fits[rotated]) (erule (2) fitsT)
  qed
qed

lemma small_buffer_inside: "cursor_inside small_buffer"
  by (simp add: cursor_inside_def small_buffer_def INT_MAX_def)

lemma small_buffer_head:
  "appendHead lit small_buffer (to_size_t 1) =
     Inr (small_buffer\<lparr>m_replace_buffer := u16 ''a'', m_replace_buffer_pos := 1,
                       calls := [Enter_appendHead 1, Call_getText]\<rparr>)"
  by code_simp

lemma small_buffer_replacement:
  "appendReplacement lit small_buffer (u16 ''X'') 1 =
     Inr (small_buffer\<lparr>m_replace_buffer := u16 ''-b-X'', m_replace_buffer_pos := 4,
                       m_error_code := U_STRING_NOT_TERMINATED_WARNING,
                       calls := [Enter_appendReplacement, Call_appendReplacement 1 4, Resize 4,
                                 Call_appendReplacement 4 4]\<rparr>)"
  by code_simp

lemma small_buffer_tail:
  "appendTail lit small_buffer =
     Inr (small_buffer\<lparr>m_replace_buffer := u16 ''-b'', m_replace_buffer_pos := 2,
                       m_error_code := U_STRING_NOT_TERMINATED_WARNING,
                       calls := [Enter_appendTail, Call_appendTail 1 2, Resize 2,
                                 Call_appendTail 2 2]\<rparr>)"
  by code_simp

theorem cursor_stays_inside_witness:
  "cursor_inside small_buffer
   \<and> cursor_inside (small_buffer\<lparr>m_replace_buffer := u16 ''a'', m_replace_buffer_pos := 1,
                       calls := [Enter_appendHead 1, Call_getText]\<rparr>)
   \<and> cursor_inside (small_buffer\<lparr>m_replace_buffer := u16 ''-b-X'', m_replace_buffer_pos := 4,
                       m_error_code := U_STRING_NOT_TERMINATED_WARNING,
                       calls := [Enter_appendReplacement, Call_appendReplacement 1 4, Resize 4,
                                 Call_appendReplacement 4 4]\<rparr>)
   \<and> cursor_inside (small_buffer\<lparr>m_replace_buffer := u16 ''-b'', m_replace_buffer_pos := 2,
                       m_error_code := U_STRING_NOT_TERMINATED_WARNING,
                       calls := [Enter_appendTail, Call_appendTail 1 2, Resize 2,
                                 Call_appendTail 2 2]\<rparr>)"
proof -
  have "(\<forall>x st'. INT_MIN \<le> x \<and> x \<le> INT_MAX \<and> appendHead lit small_buffer (to_size_t x) = Inr st'
            \<longrightarrow> cursor_inside st')
       \<and> (\<forall>r l st'. appendReplacement lit small_buffer r l = Inr st' \<and> U_SUCCESS (m_error_code st')
            \<longrightarrow> cursor_inside st')
       \<and> (\<forall>st'. appendTail lit small_buffer = Inr st' \<and> U_SUCCESS (m_error_code st')
            \<longrightarrow> cursor_inside st')"
    by (rule cursor_stays_inside[OF _ _ small_buffer_inside])
       (erule (2) lit_appendReplacement_fits lit_appendTail_fits)+
  then have h: "\<And>x st'. INT_MIN \<le> x \<Longrightarrow> x \<le> INT_MAX \<Longrightarrow>
        appendHead lit small_buffer (to_size_t x) = Inr st' \<Longrightarrow> cursor_inside st'"
    and r: "\<And>r l st'. appendReplacement lit small_buffer r l = Inr st' \<Longrightarrow>
        U_SUCCESS (m_error_code st') \<Longrightarrow> cursor_inside st'"
    and t: "\<And>st'. appendTail lit small_buffer = Inr st' \<Longrightarrow>
        U_SUCCESS (m_error_code st') \<Longrightarrow> cursor_inside st'"
    by blast+
  show ?thesis
  proof (intro conjI)
    show "cursor_inside small_buffer" by (rule small_buffer_inside)
  next
    show "cursor_inside (small_buffer\<lparr>m_replace_buffer := u16 ''a'', m_replace_buffer_pos := 1,
                       calls := [Enter_appendHead 1, Call_getText]\<rparr>)"
      by (rule h[OF _ _ small_buffer_head]) (simp_all add: INT_MIN_def INT_MAX_def)
  next
    show "cursor_inside (small_buffer\<lparr>m_replace_buffer := u16 ''-b-X'', m_replace_buffer_pos := 4,
                       m_error_code := U_STRING_NOT_TERMINATED_WARNING,
                       calls := [Enter_appendReplacement, Call_appendReplacement 1 4, Resize 4,
                                 Call_appendReplacement 4 4]\<rparr>)"
      by (rule r[OF small_buffer_replacement]) (simp add: icu_codes)
  next
    show "cursor_inside (small_buffer\<lparr>m_replace_buffer := u16 ''-b'', m_replace_buffer_pos := 2,
                       m_error_code := U_STRING_NOT_TERMINATED_WARNING,
                       calls := [Enter_appendTail, Call_appendTail 1 2, Resize 2,
                                 Call_appendTail 2 2]\<rparr>)"
      by (rule t[OF small_buffer_tail]) (simp add: icu_codes)
  qed
qed

section \<open>Overflow, resize, retry\<close>

text \<open>
  C5.  Let the cursor lie inside a buffer that is not empty, and let the matcher, called
  with the capacity \<open>cap\<close> that is left, signal \<^verbatim>\<open>U_BUFFER_OVERFLOW_ERROR\<close> and
  report the length \<open>n > cap\<close>.  Let the same call with capacity \<open>n\<close> and a cleared
  error code succeed, report \<open>n\<close> again and store \<open>n\<close> units \<open>w2\<close> (the matcher reports
  exactly what it needs).  Then \<^verbatim>\<open>appendReplacement\<close> returns with the buffer
  resized to exactly cursor + \<open>n\<close>, holding what was before the cursor followed by
  \<open>w2\<close>; the cursor has advanced by the number of units written; the matcher was called
  twice, the second time with \<^verbatim>\<open>U_ZERO_ERROR\<close>; and the error code is the success code
  of the second call.  The same holds for \<^verbatim>\<open>appendTail\<close>.
\<close>

theorem overflow_resize_retry:
  assumes c: "cursor_inside st" and ne: "m_replace_buffer st \<noteq> []"
    and cap: "cap = int (length (m_replace_buffer st)) - m_replace_buffer_pos st"
    and more: "cap < n" and q: "m_replace_buffer_pos st + n \<le> INT_MAX"
    and w1: "int (length w1) \<le> cap" and w2: "int (length w2) = n" and ok: "U_SUCCESS e2"
  shows "(uregex_appendReplacement api (m_re st) r l cap (m_error_code st)
            = (n, w1, m1, U_BUFFER_OVERFLOW_ERROR)
          \<and> uregex_appendReplacement api m1 r l n U_ZERO_ERROR = (n, w2, m2, e2)
          \<longrightarrow> appendReplacement api st r l =
                Inr (st\<lparr>m_re := m2, m_error_code := e2,
                        m_replace_buffer := take (nat (m_replace_buffer_pos st)) (m_replace_buffer st) @ w2,
                        m_replace_buffer_pos := m_replace_buffer_pos st + int (length w2),
                        calls := calls st @ [Enter_appendReplacement, Call_appendReplacement cap n,
                                   Resize (m_replace_buffer_pos st + n), Call_appendReplacement n n]\<rparr>))
       \<and> (uregex_appendTail api (m_re st) cap (m_error_code st)
            = (n, w1, m1, U_BUFFER_OVERFLOW_ERROR)
          \<and> uregex_appendTail api m1 n U_ZERO_ERROR = (n, w2, m2, e2)
          \<longrightarrow> appendTail api st =
                Inr (st\<lparr>m_re := m2, m_error_code := e2,
                        m_replace_buffer := take (nat (m_replace_buffer_pos st)) (m_replace_buffer st) @ w2,
                        m_replace_buffer_pos := m_replace_buffer_pos st + int (length w2),
                        calls := calls st @ [Enter_appendTail, Call_appendTail cap n,
                                   Resize (m_replace_buffer_pos st + n), Call_appendTail n n]\<rparr>))"
proof -
  from c cap w1 have b: "nat (m_replace_buffer_pos st) \<le> length (m_replace_buffer st)"
    "nat (m_replace_buffer_pos st) + length w1 \<le> length (m_replace_buffer st)"
    unfolding cursor_inside_def by linarith+
  from w2 have "length w2 = nat n" by simp
  from regrown_exact[OF b this]
  have g: "regrown (m_replace_buffer st) (nat (m_replace_buffer_pos st)) w1 (nat n) w2
           = take (nat (m_replace_buffer_pos st)) (m_replace_buffer st) @ w2" .
  from w2 have le: "int (length w2) \<le> n" by simp
  show ?thesis
    using appendReplacement_overflow[OF c ne cap _ w1 more q _ le, of api r l m1 n m2 e2]
      appendTail_overflow[OF c ne cap _ w1 more q _ le, of api m1 n m2 e2] g w2
    by simp
qed

theorem overflow_resize_retry_witness:
  "appendReplacement lit small_buffer (u16 ''X'') 1 =
     Inr (small_buffer\<lparr>m_error_code := U_STRING_NOT_TERMINATED_WARNING,
                       m_replace_buffer := u16 ''-b-X'', m_replace_buffer_pos := 4,
                       calls := [Enter_appendReplacement, Call_appendReplacement 1 4, Resize 4,
                                 Call_appendReplacement 4 4]\<rparr>)
   \<and> appendTail lit small_buffer =
     Inr (small_buffer\<lparr>m_error_code := U_STRING_NOT_TERMINATED_WARNING,
                       m_replace_buffer := u16 ''-b'', m_replace_buffer_pos := 2,
                       calls := [Enter_appendTail, Call_appendTail 1 2, Resize 2,
                                 Call_appendTail 2 2]\<rparr>)"
proof -
  have ne: "m_replace_buffer small_buffer \<noteq> []"
    and cap: "1 = int (length (m_replace_buffer small_buffer)) - m_replace_buffer_pos small_buffer"
    by (simp_all add: small_buffer_def)
  have r1: "uregex_appendReplacement lit (m_re small_buffer) (u16 ''X'') 1 1
              (m_error_code small_buffer)
            = (4, u16 ''-'', m_re small_buffer, U_BUFFER_OVERFLOW_ERROR)"
    and r2: "uregex_appendReplacement lit (m_re small_buffer) (u16 ''X'') 1 4 U_ZERO_ERROR
            = (4, u16 ''-b-X'', m_re small_buffer, U_STRING_NOT_TERMINATED_WARNING)"
    and t1: "uregex_appendTail lit (m_re small_buffer) 1 (m_error_code small_buffer)
            = (2, u16 ''-'', m_re small_buffer, U_BUFFER_OVERFLOW_ERROR)"
    and t2: "uregex_appendTail lit (m_re small_buffer) 2 U_ZERO_ERROR
            = (2, u16 ''-b'', m_re small_buffer, U_STRING_NOT_TERMINATED_WARNING)"
    by code_simp+
  have "appendReplacement lit small_buffer (u16 ''X'') 1 =
     Inr (small_buffer\<lparr>m_re := m_re small_buffer,
            m_error_code := U_STRING_NOT_TERMINATED_WARNING,
            m_replace_buffer := take (nat (m_replace_buffer_pos small_buffer))
                                  (m_replace_buffer small_buffer) @ u16 ''-b-X'',
            m_replace_buffer_pos := m_replace_buffer_pos small_buffer + int (length (u16 ''-b-X'')),
            calls := calls small_buffer @ [Enter_appendReplacement, Call_appendReplacement 1 4,
                       Resize (m_replace_buffer_pos small_buffer + 4), Call_appendReplacement 4 4]\<rparr>)"
    using overflow_resize_retry[OF small_buffer_inside ne cap, of 4 "u16 ''-''" "u16 ''-b-X''"
        U_STRING_NOT_TERMINATED_WARNING lit "u16 ''X''" 1 "m_re small_buffer" "m_re small_buffer"]
      r1 r2
    by (simp add: small_buffer_def INT_MAX_def icu_codes u16_def)
  moreover have "appendTail lit small_buffer =
     Inr (small_buffer\<lparr>m_re := m_re small_buffer,
            m_error_code := U_STRING_NOT_TERMINATED_WARNING,
            m_replace_buffer := take (nat (m_replace_buffer_pos small_buffer))
                                  (m_replace_buffer small_buffer) @ u16 ''-b'',
            m_replace_buffer_pos := m_replace_buffer_pos small_buffer + int (length (u16 ''-b'')),
            calls := calls small_buffer @ [Enter_appendTail, Call_appendTail 1 2,
                       Resize (m_replace_buffer_pos small_buffer + 2), Call_appendTail 2 2]\<rparr>)"
    using overflow_resize_retry[OF small_buffer_inside ne cap, of 2 "u16 ''-''" "u16 ''-b''"
        U_STRING_NOT_TERMINATED_WARNING lit "u16 ''X''" 1 "m_re small_buffer" "m_re small_buffer"]
      t1 t2
    by (simp add: small_buffer_def INT_MAX_def icu_codes u16_def)
  ultimately show ?thesis
    by (simp add: small_buffer_def u16_def)
qed

section \<open>A second overflow\<close>

text \<open>
  C7, as the code has it.  Let the first attempt overflow and report \<open>n\<close>, and let the
  retry after the resize signal \<^verbatim>\<open>U_BUFFER_OVERFLOW_ERROR\<close> again.  Neither
  \<^verbatim>\<open>appendReplacement\<close> nor \<^verbatim>\<open>appendTail\<close> looks at what the retry returned:
  they return normally, the cursor has advanced by \<open>n\<close>, the length reported by the
  first attempt, and \<^verbatim>\<open>U_BUFFER_OVERFLOW_ERROR\<close> is what is left in
  \<^verbatim>\<open>m_error_code\<close>.  There is no third attempt.
\<close>

theorem second_overflow_unnoticed:
  assumes c: "cursor_inside st" and ne: "m_replace_buffer st \<noteq> []"
    and cap: "cap = int (length (m_replace_buffer st)) - m_replace_buffer_pos st"
    and more: "cap < n" and q: "m_replace_buffer_pos st + n \<le> INT_MAX"
    and w1: "int (length w1) \<le> cap" and w2: "int (length w2) \<le> n"
  shows "(uregex_appendReplacement api (m_re st) r l cap (m_error_code st)
            = (n, w1, m1, U_BUFFER_OVERFLOW_ERROR)
          \<and> uregex_appendReplacement api m1 r l n U_ZERO_ERROR
            = (n', w2, m2, U_BUFFER_OVERFLOW_ERROR)
          \<longrightarrow> (\<exists>st'. appendReplacement api st r l = Inr st'
                 \<and> m_replace_buffer_pos st' = m_replace_buffer_pos st + n
                 \<and> m_error_code st' = U_BUFFER_OVERFLOW_ERROR
                 \<and> calls st' = calls st @ [Enter_appendReplacement, Call_appendReplacement cap n,
                                   Resize (m_replace_buffer_pos st + n), Call_appendReplacement n n']))
       \<and> (uregex_appendTail api (m_re st) cap (m_error_code st)
            = (n, w1, m1, U_BUFFER_OVERFLOW_ERROR)
          \<and> uregex_appendTail api m1 n U_ZERO_ERROR = (n', w2, m2, U_BUFFER_OVERFLOW_ERROR)
          \<longrightarrow> (\<exists>st'. appendTail api st = Inr st'
                 \<and> m_replace_buffer_pos st' = m_replace_buffer_pos st + n
                 \<and> m_error_code st' = U_BUFFER_OVERFLOW_ERROR
                 \<and> calls st' = calls st @ [Enter_appendTail, Call_appendTail cap n,
                                   Resize (m_replace_buffer_pos st + n), Call_appendTail n n']))"
  using appendReplacement_overflow[OF c ne cap _ w1 more q _ w2,
      of api r l m1 n' m2 U_BUFFER_OVERFLOW_ERROR]
    appendTail_overflow[OF c ne cap _ w1 more q _ w2, of api m1 n' m2 U_BUFFER_OVERFLOW_ERROR]
  by simp

theorem second_overflow_unnoticed_witness:
  "(\<exists>st'. appendReplacement stingy small_buffer (u16 ''XYZ'') 3 = Inr st'
       \<and> m_replace_buffer_pos st' = 5 \<and> m_error_code st' = U_BUFFER_OVERFLOW_ERROR
       \<and> calls st' = [Enter_appendReplacement, Call_appendReplacement 1 5, Resize 5,
                       Call_appendReplacement 5 5])
   \<and> (\<exists>st'. appendTail stingy (small_buffer\<lparr>m_re := m_re small_buffer\<lparr>fMatchStart := 0, fMatchEnd := 1, fLastMatchEnd := 0\<rparr>\<rparr>) = Inr st'
       \<and> m_replace_buffer_pos st' = 5 \<and> m_error_code st' = U_BUFFER_OVERFLOW_ERROR
       \<and> calls st' = [Enter_appendTail, Call_appendTail 1 5, Resize 5, Call_appendTail 5 5])"
proof -
  let ?first = "small_buffer\<lparr>m_re := m_re small_buffer\<lparr>fMatchStart := 0, fMatchEnd := 1, fLastMatchEnd := 0\<rparr>\<rparr>"
  have ne: "m_replace_buffer small_buffer \<noteq> []"
    and cap: "1 = int (length (m_replace_buffer small_buffer)) - m_replace_buffer_pos small_buffer"
    and inside': "cursor_inside ?first"
    and ne': "m_replace_buffer ?first \<noteq> []"
    and cap': "1 = int (length (m_replace_buffer ?first)) - m_replace_buffer_pos ?first"
    by (simp_all add: small_buffer_def cursor_inside_def INT_MAX_def)
  have r1: "uregex_appendReplacement stingy (m_re small_buffer) (u16 ''XYZ'') 3 1
              (m_error_code small_buffer)
            = (5, u16 ''-'', m_re small_buffer, U_BUFFER_OVERFLOW_ERROR)"
    and r2: "uregex_appendReplacement stingy (m_re small_buffer) (u16 ''XYZ'') 3 5 U_ZERO_ERROR
            = (5, u16 ''-b-XY'', m_re small_buffer, U_BUFFER_OVERFLOW_ERROR)"
    and t1: "uregex_appendTail stingy (m_re ?first) 1 (m_error_code ?first)
            = (5, u16 ''-'', m_re ?first, U_BUFFER_OVERFLOW_ERROR)"
    and t2: "uregex_appendTail stingy (m_re ?first) 5 U_ZERO_ERROR
            = (5, u16 ''-b-a-'', m_re ?first, U_BUFFER_OVERFLOW_ERROR)"
    by code_simp+
  have "\<exists>st'. appendReplacement stingy small_buffer (u16 ''XYZ'') 3 = Inr st'
       \<and> m_replace_buffer_pos st' = 5 \<and> m_error_code st' = U_BUFFER_OVERFLOW_ERROR
       \<and> calls st' = [Enter_appendReplacement, Call_appendReplacement 1 5, Resize 5,
                       Call_appendReplacement 5 5]"
    using second_overflow_unnoticed[OF small_buffer_inside ne cap, of 5 "u16 ''-''" "u16 ''-b-XY''"
        stingy "u16 ''XYZ''" 3 "m_re small_buffer" 5 "m_re small_buffer"]
      r1 r2
    by (simp add: small_buffer_def INT_MAX_def u16_def)
  moreover have "\<exists>st'. appendTail stingy ?first = Inr st'
       \<and> m_replace_buffer_pos st' = 5 \<and> m_error_code st' = U_BUFFER_OVERFLOW_ERROR
       \<and> calls st' = [Enter_appendTail, Call_appendTail 1 5, Resize 5, Call_appendTail 5 5]"
    using second_overflow_unnoticed[OF inside' ne' cap', of 5 "u16 ''-''" "u16 ''-b-a-''"
        stingy "u16 ''XYZ''" 3 "m_re ?first" 5 "m_re ?first"]
      t1 t2
    by (simp add: small_buffer_def INT_MAX_def u16_def)
  ultimately show ?thesis by simp
qed

text \<open>
  The claim C7 itself (a second overflow is a fatal error, the operation does not go on
  as if the append had succeeded) fails: with the matcher that asks for one unit too
  little, both attempts of \<^verbatim>\<open>appendReplacement\<close> overflow, it returns with the
  cursor at 5, and \<open>replace\<close> hands back \<open>a-b-WXY-\<close> where the literal matcher gives
  \<open>a-b-WXYZ-b\<close>.
\<close>

theorem second_overflow_counterexample:
  "uregex_appendReplacement stingy (m_re small_buffer) (u16 ''XYZ'') 3 1 (m_error_code small_buffer)
     = (5, u16 ''-'', m_re small_buffer, U_BUFFER_OVERFLOW_ERROR)
   \<and> uregex_appendReplacement stingy (m_re small_buffer) (u16 ''XYZ'') 3 5 U_ZERO_ERROR
     = (5, u16 ''-b-XY'', m_re small_buffer, U_BUFFER_OVERFLOW_ERROR)
   \<and> appendReplacement stingy small_buffer (u16 ''XYZ'') 3
     = Inr (small_buffer\<lparr>m_replace_buffer := u16 ''-b-XY'', m_replace_buffer_pos := 5,
                          m_error_code := U_BUFFER_OVERFLOW_ERROR,
                          calls := [Enter_appendReplacement, Call_appendReplacement 1 5, Resize 5,
                                    Call_appendReplacement 5 5]\<rparr>)
   \<and> replace stingy (lit_open (u16 ''a'') (u16 ''a-b-a-b'')) (u16 ''WXYZ'') 4 7 0 2
     = Some (Inr \<lparr>returnStr = Fresh (u16 ''a-b-WXY-''), returnSize = 8,
                  trace = [Call_find 0 True, Call_end 1, Call_findNext True, Resize 7,
                           Enter_appendHead 1, Call_getText,
                           Enter_appendReplacement, Call_appendReplacement 6 6, Resize 7,
                           Call_appendReplacement 6 6,
                           Enter_appendTail, Call_appendTail 0 1, Resize 8, Call_appendTail 1 1,
                           Resize 8, Malloc 64, Memcpy 64]\<rparr>)"
  by (intro conjI; code_simp)

section \<open>A failure code from the matcher\<close>

lemma finish_Inr:
  "finish st = Inr out \<Longrightarrow>
   \<exists>b. returnStr out = Fresh b \<and> returnSize out = to_int (int (length b))"
  by (auto simp: finish_def bindF_eq_Inr)

text \<open>
  C4, as the code has it.  \<open>replace\<close> has no output for an error code.  When the
  search ends without a match and with a failure code, \<open>replace\<close> does not return the
  pointer \<^verbatim>\<open>original\<close> and does not stop: it resizes the buffer, calls
  \<^verbatim>\<open>appendHead\<close> and \<^verbatim>\<open>appendTail\<close>, and what it returns, when these do not
  fault, is a newly allocated block of as many units as the cursor says.
\<close>

theorem search_fault_goes_on:
  assumes "search api regexp start occurrence = (False, e, st)"
    and "\<not> U_SUCCESS (m_error_code st)"
  shows "replace api regexp replacement replacementLen originalSize start occurrence =
           Some (bindF (bindF (resize (to_size_t originalSize) st)
                          (\<lambda>st1. appendHead api st1 (to_size_t (max e start))))
                   (\<lambda>st2. bindF (appendTail api st2) finish))
       \<and> (\<forall>out. replace api regexp replacement replacementLen originalSize start occurrence
                   = Some (Inr out)
              \<longrightarrow> (\<exists>b. returnStr out = Fresh b \<and> returnSize out = to_int (int (length b))))"
proof -
  let ?head = "bindF (resize (to_size_t originalSize) st)
                 (\<lambda>st1. appendHead api st1 (to_size_t (max e start)))"
  have eq: "replace api regexp replacement replacementLen originalSize start occurrence =
           Some (bindF ?head (\<lambda>st2. bindF (appendTail api st2) finish))"
    using assms by (cases ?head) (simp_all add: replace_def)
  moreover have "\<exists>b. returnStr out = Fresh b \<and> returnSize out = to_int (int (length b))"
    if "bindF ?head (\<lambda>st2. bindF (appendTail api st2) finish) = Inr out" for out
    using that by (auto simp: bindF_eq_Inr dest: finish_Inr)
  ultimately show ?thesis by simp
qed

lemma search_past_end:
  "search lit (lit_open (u16 ''a'') (u16 ''ab'')) 5 0 =
     (False, 0,
      \<lparr>m_re = \<lparr>fText = u16 ''ab'', fPattern = u16 ''a'', fMatch = False,
               fMatchStart = 0, fMatchEnd = 0, fLastMatchEnd = - 1\<rparr>,
       m_replace_buffer = [], m_replace_buffer_pos = 0,
       m_error_code = U_INDEX_OUTOFBOUNDS_ERROR, calls = [Call_find 5 False]\<rparr>)"
  by code_simp

theorem search_fault_goes_on_witness:
  "\<exists>out. replace lit (lit_open (u16 ''a'') (u16 ''ab'')) (u16 ''X'') 1 2 5 0 = Some (Inr out)
       \<and> returnStr out = Fresh [] \<and> returnSize out = 0"
proof -
  have run: "replace lit (lit_open (u16 ''a'') (u16 ''ab'')) (u16 ''X'') 1 2 5 0 =
     Some (Inr \<lparr>returnStr = Fresh [], returnSize = 0,
                trace = [Call_find 5 False, Resize 2, Enter_appendHead 5, Call_getText,
                         Enter_appendTail, Call_appendTail 2 0, Resize 0, Malloc 0, Memcpy 0]\<rparr>)"
    by code_simp
  have "\<not> U_SUCCESS (m_error_code \<lparr>m_re = \<lparr>fText = u16 ''ab'', fPattern = u16 ''a'', fMatch = False,
               fMatchStart = 0, fMatchEnd = 0, fLastMatchEnd = - 1\<rparr>,
       m_replace_buffer = [], m_replace_buffer_pos = 0,
       m_error_code = U_INDEX_OUTOFBOUNDS_ERROR, calls = [Call_find 5 False]\<rparr>)"
    by (simp add: icu_codes)
  from search_fault_goes_on[OF search_past_end this, of "u16 ''X''" 1 2, THEN conjunct2,
      rule_format, OF run]
  obtain b where "Fresh [] = Fresh b" "(0::int) = to_int (int (length b))"
    by auto
  with run show ?thesis by simp
qed

text \<open>
  The claim C4 itself (the operation aborts with the error code surfaced, and never
  returns a newly built buffer) fails: a search from offset 5 in the text \<open>ab\<close> ends
  with \<^verbatim>\<open>U_INDEX_OUTOFBOUNDS_ERROR\<close>, and \<open>replace\<close> returns a new, empty block and
  the length 0.
\<close>

theorem matcher_fault_counterexample:
  "uregex_find lit (lit_open (u16 ''a'') (u16 ''ab'')) 5 U_ZERO_ERROR =
     (False, \<lparr>fText = u16 ''ab'', fPattern = u16 ''a'', fMatch = False,
               fMatchStart = 0, fMatchEnd = 0, fLastMatchEnd = - 1\<rparr>, U_INDEX_OUTOFBOUNDS_ERROR)
   \<and> \<not> U_SUCCESS U_INDEX_OUTOFBOUNDS_ERROR
   \<and> U_INDEX_OUTOFBOUNDS_ERROR \<noteq> U_BUFFER_OVERFLOW_ERROR
   \<and> replace lit (lit_open (u16 ''a'') (u16 ''ab'')) (u16 ''X'') 1 2 5 0 =
     Some (Inr \<lparr>returnStr = Fresh [], returnSize = 0,
                trace = [Call_find 5 False, Resize 2, Enter_appendHead 5, Call_getText,
                         Enter_appendTail, Call_appendTail 2 0, Resize 0, Malloc 0, Memcpy 0]\<rparr>)"
  by (intro conjI; code_simp)

section \<open>The final copy\<close>

text \<open>
  C6.  \<open>replace\<close> cuts the buffer to the cursor and returns its size, but the block
  it allocates and the number of bytes it copies are the size times
  \<^verbatim>\<open>sizeof(UChar*)\<close>, not times \<^verbatim>\<open>sizeof(UChar)\<close>: for a result of 7 units,
  56 bytes are allocated and 56 bytes are read from a buffer that holds 7 units and the
  terminator, 16 bytes.
\<close>

theorem copy_of_pointer_sized_units:
  "replace lit (lit_open (u16 ''a'') (u16 ''a-b-a-b'')) (u16 ''X'') 1 7 0 1 =
     Some (Inr \<lparr>returnStr = Fresh (u16 ''X-b-a-b''), returnSize = 7,
                trace = [Call_find 0 True, Resize 7, Enter_appendHead 0,
                         Enter_appendReplacement, Call_appendReplacement 7 1,
                         Enter_appendTail, Call_appendTail 6 6, Resize 7,
                         Malloc 56, Memcpy 56]\<rparr>)
   \<and> 7 * sizeof_UChar = 14 \<and> (7 + 1) * sizeof_UChar < 56"
  by (intro conjI; code_simp)

section \<open>An empty text\<close>

lemma resize_zero:
  "m_replace_buffer st = [] \<Longrightarrow>
   resize (to_size_t 0) st = Inr (st\<lparr>calls := calls st @ [Resize 0]\<rparr>)"
  by (simp add: resize_def to_size_t_def max_size_def log_event_def)

lemma retry_once_empty:
  assumes t: "\<And>s. m_replace_buffer s = [] \<Longrightarrow> attempt s = Inr (0, s)"
    and e: "m_replace_buffer st = []" "m_replace_buffer_pos st = 0"
  shows "\<exists>st'. retry_once attempt st = Inr st' \<and> m_replace_buffer st' = []
           \<and> m_replace_buffer_pos st' = 0 \<and> m_re st' = m_re st \<and> adds is_idle st st'"
proof (cases "m_error_code st = U_BUFFER_OVERFLOW_ERROR")
  case False
  with e t[OF e(1)] have "retry_once attempt st = Inr (st\<lparr>m_replace_buffer_pos := 0\<rparr>)"
    by (simp add: retry_once_def add_int_def INT_MIN_def INT_MAX_def)
  with e show ?thesis by simp
next
  case True
  let ?s2 = "st\<lparr>calls := calls st @ [Resize 0]\<rparr>"
  have t2: "attempt (?s2\<lparr>m_error_code := U_ZERO_ERROR\<rparr>) = Inr (0, ?s2\<lparr>m_error_code := U_ZERO_ERROR\<rparr>)"
    using e by (intro t) simp
  have a: "add_int 0 0 = Inr 0" by (simp add: add_int_def INT_MIN_def INT_MAX_def)
  have "retry_once attempt st = Inr (?s2\<lparr>m_error_code := U_ZERO_ERROR, m_replace_buffer_pos := 0\<rparr>)"
    using retry_once_grown[of attempt st 0 st 0 ?s2 0 "?s2\<lparr>m_error_code := U_ZERO_ERROR\<rparr>" 0]
      t[OF e(1)] True e a resize_zero[OF e(1)] t2
    by simp
  with e show ?thesis
    by (simp add: adds_def)
qed

lemma appendReplacement_empty:
  assumes "m_replace_buffer st = []" "m_replace_buffer_pos st = 0"
  shows "\<exists>st'. appendReplacement api st r l = Inr st' \<and> m_replace_buffer st' = []
           \<and> m_replace_buffer_pos st' = 0 \<and> m_re st' = m_re st \<and> adds is_idle st st'"
proof -
  let ?s0 = "log_event Enter_appendReplacement st"
  have "\<exists>st'. retry_once (\<lambda>s. tryToAppendReplacement api s r l) ?s0 = Inr st' \<and> m_replace_buffer st' = []
           \<and> m_replace_buffer_pos st' = 0 \<and> m_re st' = m_re ?s0 \<and> adds is_idle ?s0 st'"
    using assms by (intro retry_once_empty) (simp_all add: tryToAppendReplacement_def log_event_def)
  moreover have "adds is_idle st ?s0"
    by (simp add: adds_def log_event_def)
  ultimately show ?thesis
    unfolding appendReplacement_retry_once by (auto simp: log_event_def intro: adds_trans)
qed

lemma appendTail_empty:
  assumes "m_replace_buffer st = []" "m_replace_buffer_pos st = 0"
  shows "\<exists>st'. appendTail api st = Inr st' \<and> m_replace_buffer st' = []
           \<and> m_replace_buffer_pos st' = 0 \<and> m_re st' = m_re st \<and> adds is_idle st st'"
proof -
  let ?s0 = "log_event Enter_appendTail st"
  have "\<exists>st'. retry_once (tryToAppendTail api) ?s0 = Inr st' \<and> m_replace_buffer st' = []
           \<and> m_replace_buffer_pos st' = 0 \<and> m_re st' = m_re ?s0 \<and> adds is_idle ?s0 st'"
    using assms by (intro retry_once_empty) (simp_all add: tryToAppendTail_def log_event_def)
  moreover have "adds is_idle st ?s0"
    by (simp add: adds_def log_event_def)
  ultimately show ?thesis
    unfolding appendTail_retry_once by (auto simp: log_event_def intro: adds_trans)
qed

lemma replace_loop_empty:
  assumes dec: "\<And>m e m' e'. uregex_findNext api m e = (True, m', e') \<Longrightarrow> \<mu> m' < (\<mu> m :: nat)"
    and "m_replace_buffer st = []" "m_replace_buffer_pos st = 0"
  shows "\<exists>st'. replace_loop api r l occurrence st = Some (Inr st') \<and> m_replace_buffer st' = []
           \<and> m_replace_buffer_pos st' = 0 \<and> adds is_idle st st'"
  using assms(2,3)
proof (induction "\<mu> (m_re st)" arbitrary: st rule: less_induct)
  case less
  from appendReplacement_empty[OF less.prems, of api r l] obtain st1 where
    a: "appendReplacement api st r l = Inr st1" and b1: "m_replace_buffer st1 = []"
    "m_replace_buffer_pos st1 = 0" and m1: "m_re st1 = m_re st" and i1: "adds is_idle st st1"
    by blast
  show ?case
  proof (cases "occurrence = 0")
    case False
    with a b1 i1 show ?thesis by (simp add: replace_loop_once)
  next
    case True
    let ?st2 = "snd (call_findNext api st1)"
    have b2: "m_replace_buffer ?st2 = []" "m_replace_buffer_pos ?st2 = 0"
      using b1 by (simp_all add: call_findNext_buffer)
    have i2: "adds is_idle st ?st2"
      using i1 by (auto simp: adds_def call_findNext_calls)
    show ?thesis
    proof (cases "fst (call_findNext api st1)")
      case f: False
      then have "replace_loop api r l occurrence st = Some (Inr ?st2)"
        using a True by (subst replace_loop.simps) simp
      with b2 i2 show ?thesis by simp
    next
      case f: True
      then have "uregex_findNext api (m_re st1) (m_error_code st1) = (True, m_re ?st2, m_error_code ?st2)"
        by (simp add: call_findNext_def log_event_def split: prod.splits)
      from dec[OF this] m1 have "\<mu> (m_re ?st2) < \<mu> (m_re st)" by simp
      from less.hyps[OF this b2] obtain st' where
        "replace_loop api r l occurrence ?st2 = Some (Inr st')" "m_replace_buffer st' = []"
        "m_replace_buffer_pos st' = 0" "adds is_idle ?st2 st'"
        by blast
      moreover have "replace_loop api r l occurrence st = replace_loop api r l occurrence ?st2"
        using a True f by (subst replace_loop.simps) simp
      ultimately show ?thesis using i2 by (auto intro: adds_trans)
    qed
  qed
qed

lemma search_idle: "list_all is_search evs \<Longrightarrow> list_all is_idle evs"
proof -
  have "is_idle ev" if "is_search ev" for ev
    using that by (cases ev) simp_all
  then show "list_all is_search evs \<Longrightarrow> list_all is_idle evs"
    by (auto simp: list_all_iff)
qed

lemma adds_idle_all:
  "list_all is_idle (calls st) \<Longrightarrow> adds is_idle st st' \<Longrightarrow> list_all is_idle (calls st')"
  by (auto simp: adds_def)

lemma idle_events:
  assumes "list_all is_idle evs"
  shows "filter is_matcher_append evs = []" and "\<forall>n. Resize n \<in> set evs \<longrightarrow> n = 0"
proof -
  have "\<not> is_matcher_append ev" if "is_idle ev" for ev
    using that by (cases ev) simp_all
  with assms show "filter is_matcher_append evs = []"
    by (auto simp: list_all_iff filter_empty_conv)
  from assms show "\<forall>n. Resize n \<in> set evs \<longrightarrow> n = 0"
    by (auto simp: list_all_iff)
qed

text \<open>
  C9.  Let \<open>originalSize\<close> be 0, let the search find a match, and let there be no head
  to copy (neither the start offset nor the end of a skipped match is positive, as in
  an empty text).  Let the matcher be one whose \<^verbatim>\<open>uregex_findNext\<close> cannot succeed
  for ever.  Then \<open>replace\<close> returns a newly allocated block of length 0; neither
  \<^verbatim>\<open>uregex_appendReplacement\<close> nor \<^verbatim>\<open>uregex_appendTail\<close> was ever called, and
  every \<^verbatim>\<open>resize\<close> was to the size 0: the buffer never grows and the replacement
  text is not written.
\<close>

theorem empty_text_never_appends:
  assumes dec: "\<And>m e m' e'. uregex_findNext api m e = (True, m', e') \<Longrightarrow> \<mu> m' < (\<mu> m :: nat)"
    and s: "search api regexp start occurrence = (True, e, st)"
    and z: "max e start = 0"
  shows "\<exists>out. replace api regexp replacement replacementLen 0 start occurrence = Some (Inr out)
           \<and> returnStr out = Fresh [] \<and> returnSize out = 0
           \<and> filter is_matcher_append (trace out) = []
           \<and> (\<forall>n. Resize n \<in> set (trace out) \<longrightarrow> n = 0)"
proof -
  from search_buffer[OF s] have b: "m_replace_buffer st = []" "m_replace_buffer_pos st = 0"
    by simp_all
  let ?s1 = "st\<lparr>calls := calls st @ [Resize 0]\<rparr>"
  let ?s2 = "log_event (Enter_appendHead 0) ?s1"
  have z0: "to_size_t 0 = 0" by (simp add: to_size_t_def)
  have head: "bindF (resize (to_size_t 0) st) (\<lambda>st1. appendHead api st1 (to_size_t (max e start))) = Inr ?s2"
    using resize_zero[OF b(1)] z by (simp add: appendHead_def z0)
  have b2: "m_replace_buffer ?s2 = []" "m_replace_buffer_pos ?s2 = 0"
    using b by (simp_all add: log_event_def)
  have i2: "adds is_idle st ?s2"
    by (simp add: adds_def log_event_def)
  have "\<exists>st'. replace_loop api replacement replacementLen occurrence ?s2 = Some (Inr st')
           \<and> m_replace_buffer st' = [] \<and> m_replace_buffer_pos st' = 0 \<and> adds is_idle ?s2 st'"
    using b2 by (intro replace_loop_empty[where \<mu> = \<mu>]) (erule dec, assumption+)
  then obtain st3 where l: "replace_loop api replacement replacementLen occurrence ?s2 = Some (Inr st3)"
    and b3: "m_replace_buffer st3 = []" "m_replace_buffer_pos st3 = 0" and i3: "adds is_idle ?s2 st3"
    by blast
  from appendTail_empty[OF b3, of api] obtain st4 where t: "appendTail api st3 = Inr st4"
    and b4: "m_replace_buffer st4 = []" "m_replace_buffer_pos st4 = 0" and i4: "adds is_idle st3 st4"
    by blast
  let ?out = "\<lparr>returnStr = Fresh [], returnSize = 0,
               trace = calls st4 @ [Resize 0, Malloc 0, Memcpy 0]\<rparr>"
  have f: "finish st4 = Inr ?out"
    using b4 resize_zero[OF b4(1)] by (simp add: finish_def to_int_def)
  have "replace api regexp replacement replacementLen 0 start occurrence = Some (Inr ?out)"
    using s head l t f by (simp add: replace_def)
  moreover have "list_all is_idle (calls st4)"
    using adds_idle_all[OF search_idle[OF search_calls[OF s]] adds_trans[OF adds_trans[OF i2 i3] i4]] .
  then have "list_all is_idle (trace ?out)" by simp
  from idle_events[OF this]
  have "filter is_matcher_append (trace ?out) = []" "\<forall>n. Resize n \<in> set (trace ?out) \<longrightarrow> n = 0" .
  ultimately show ?thesis by (intro exI[of _ ?out]) simp
qed

theorem empty_text_never_appends_witness:
  "\<exists>out. replace lit (lit_open [] []) (u16 ''XYZ'') 3 0 0 0 = Some (Inr out)
           \<and> returnStr out = Fresh [] \<and> returnSize out = 0
           \<and> filter is_matcher_append (trace out) = []
           \<and> (\<forall>n. Resize n \<in> set (trace out) \<longrightarrow> n = 0)"
proof -
  have s: "search lit (lit_open [] []) 0 0 =
     (True, 0,
      \<lparr>m_re = \<lparr>fText = [], fPattern = [], fMatch = True,
               fMatchStart = 0, fMatchEnd = 0, fLastMatchEnd = 0\<rparr>,
       m_replace_buffer = [], m_replace_buffer_pos = 0, m_error_code = U_ZERO_ERROR,
       calls = [Call_find 0 True]\<rparr>)"
    by code_simp
  show ?thesis
    by (rule empty_text_never_appends[where \<mu> = lit_remaining, OF _ s]) (erule lit_dec, simp)
qed

section \<open>A negative selector\<close>

lemma filter_skipped:
  "filter is_findNext (concat (map (\<lambda>x. [Call_end x, Call_findNext True]) ends))
     = replicate (length ends) (Call_findNext True)"
  "filter (\<lambda>ev. ev = Enter_appendReplacement) (concat (map (\<lambda>x. [Call_end x, Call_findNext True]) ends)) = []"
  "length (filter is_match (concat (map (\<lambda>x. [Call_end x, Call_findNext True]) ends))) = length ends"
  by (induction ends) simp_all

lemma one_replacement_trace:
  assumes r: "bindF (bindF (bindF (resize n st) (\<lambda>st1. appendHead api st1 k))
                    (\<lambda>st2. appendReplacement api st2 replacement replacementLen))
             (\<lambda>st3. bindF (appendTail api st3) finish) = Inr out"
  shows "\<exists>ex1 ex2. trace out = calls st @ Resize n # Enter_appendHead k # ex1
                       @ Enter_appendReplacement # ex2
         \<and> list_all is_buffer_work ex1 \<and> list_all is_buffer_work ex2"
proof -
  from r obtain st1 st2 st3 where
    a: "resize n st = Inr st1" and b: "appendHead api st1 k = Inr st2"
    and c: "appendReplacement api st2 replacement replacementLen = Inr st3"
    and d: "bindF (appendTail api st3) finish = Inr out"
    by (auto simp: bindF_eq_Inr)
  from resize_Inr[OF a] have c1: "calls st1 = calls st @ [Resize n]" by simp
  from b obtain ex1 where c2: "calls st2 = calls st1 @ Enter_appendHead k # ex1"
    and w1: "list_all is_buffer_work ex1"
    by (auto simp: appendHead_def Let_def log_event_def bindF_eq_Inr
        split: if_splits prod.splits dest!: resize_Inr)
  from appendReplacement_adds[OF c] obtain ex2 where
    c3: "calls st3 = calls st2 @ Enter_appendReplacement # ex2" and w2: "list_all is_buffer_work ex2"
    by (auto simp: adds_def log_event_def)
  from tail_phase_trace[OF d] obtain ex3 where
    c4: "trace out = calls st3 @ ex3" and w3: "list_all is_buffer_work ex3"
    by blast
  have "trace out = calls st @ Resize n # Enter_appendHead k # ex1 @ Enter_appendReplacement # (ex2 @ ex3)"
    using c1 c2 c3 c4 by simp
  moreover have "list_all is_buffer_work (ex2 @ ex3)" using w2 w3 by simp
  ultimately show ?thesis using w1 by blast
qed

text \<open>
  C10.  With a negative selector \<open>replace\<close> returns what it returns with selector 1,
  record of calls included.  The skip loop does not run: the search is the one call of
  \<^verbatim>\<open>uregex_find\<close>, and \<^verbatim>\<open>end_of_previous_match\<close> is 0.  When that call finds a
  match, \<open>replace\<close> is \<^verbatim>\<open>appendHead\<close>, one \<^verbatim>\<open>appendReplacement\<close>,
  \<^verbatim>\<open>appendTail\<close> and the final copy, and \<^verbatim>\<open>uregex_findNext\<close> is never called.
\<close>

theorem negative_selector_is_first:
  assumes neg: "occurrence < 0"
  shows "replace api regexp replacement replacementLen originalSize start occurrence
           = replace api regexp replacement replacementLen originalSize start 1
       \<and> (\<exists>found st. search api regexp start occurrence = (found, 0, st)
              \<and> calls st = [Call_find start found]
              \<and> (found \<longrightarrow>
                   replace api regexp replacement replacementLen originalSize start occurrence =
                     Some (bindF (bindF (bindF (resize (to_size_t originalSize) st)
                                          (\<lambda>st1. appendHead api st1 (to_size_t (max 0 start))))
                                   (\<lambda>st2. appendReplacement api st2 replacement replacementLen))
                            (\<lambda>st3. bindF (appendTail api st3) finish))
                   \<and> (\<forall>out. replace api regexp replacement replacementLen originalSize start
                               occurrence = Some (Inr out)
                        \<longrightarrow> replacements (trace out) = 1
                            \<and> filter is_findNext (trace out) = [])))"
proof -
  let ?st0 = "\<lparr>m_re = regexp, m_replace_buffer = [], m_replace_buffer_pos = 0,
                m_error_code = U_ZERO_ERROR, calls = []\<rparr>"
  let ?found = "fst (call_find api ?st0 start)"
  let ?st = "snd (call_find api ?st0 start)"
  from neg have s: "search api regexp start occurrence = (?found, 0, ?st)"
    by (intro search_negative) simp
  have s1: "search api regexp start 1 = (?found, 0, ?st)"
    by (intro search_negative) simp
  have c: "calls ?st = [Call_find start ?found]"
    by (simp add: call_find_calls)
  have loop: "replace_loop api replacement replacementLen occurrence st2
              = replace_loop api replacement replacementLen 1 st2" for st2
    using neg by (simp add: replace_loop_once)
  have same: "replace api regexp replacement replacementLen originalSize start occurrence
           = replace api regexp replacement replacementLen originalSize start 1"
    unfolding replace_def s s1 loop by (rule refl)
  have one: "replace api regexp replacement replacementLen originalSize start occurrence =
                     Some (bindF (bindF (bindF (resize (to_size_t originalSize) ?st)
                                          (\<lambda>st1. appendHead api st1 (to_size_t (max 0 start))))
                                   (\<lambda>st2. appendReplacement api st2 replacement replacementLen))
                            (\<lambda>st3. bindF (appendTail api st3) finish))" if ?found
    using replace_found_nonzero[of occurrence api regexp start 0 ?st] neg s that by simp
  have counts: "replacements (trace out) = 1 \<and> filter is_findNext (trace out) = []"
    if f: ?found and r: "replace api regexp replacement replacementLen originalSize start
                               occurrence = Some (Inr out)" for out
  proof -
    from one[OF f] r have "bindF (bindF (bindF (resize (to_size_t originalSize) ?st)
                                          (\<lambda>st1. appendHead api st1 (to_size_t (max 0 start))))
                                   (\<lambda>st2. appendReplacement api st2 replacement replacementLen))
                            (\<lambda>st3. bindF (appendTail api st3) finish) = Inr out"
      by simp
    from one_replacement_trace[OF this] obtain ex1 ex2 where
      t: "trace out = calls ?st @ Resize (to_size_t originalSize)
                # Enter_appendHead (to_size_t (max 0 start)) # ex1 @ Enter_appendReplacement # ex2"
      and w: "list_all is_buffer_work ex1" "list_all is_buffer_work ex2"
      by blast
    show ?thesis
      using filter_buffer_work[OF w(1)] filter_buffer_work[OF w(2)]
      by (simp add: t c replacements_def)
  qed
  from same s c one counts show ?thesis by blast
qed

theorem negative_selector_is_first_witness:
  "replace lit (lit_open (u16 ''a'') (u16 ''a-b-a-b'')) (u16 ''X'') 1 7 0 (- 3)
     = replace lit (lit_open (u16 ''a'') (u16 ''a-b-a-b'')) (u16 ''X'') 1 7 0 1
   \<and> replace lit (lit_open (u16 ''a'') (u16 ''a-b-a-b'')) (u16 ''X'') 1 7 0 (- 3)
     = Some (Inr \<lparr>returnStr = Fresh (u16 ''X-b-a-b''), returnSize = 7,
                  trace = [Call_find 0 True, Resize 7, Enter_appendHead 0,
                           Enter_appendReplacement, Call_appendReplacement 7 1,
                           Enter_appendTail, Call_appendTail 6 6, Resize 7,
                           Malloc 56, Memcpy 56]\<rparr>)
   \<and> replacements [Call_find 0 True, Resize 7, Enter_appendHead 0,
                    Enter_appendReplacement, Call_appendReplacement 7 1,
                    Enter_appendTail, Call_appendTail 6 6, Resize 7,
                    Malloc 56, Memcpy 56] = 1
   \<and> filter is_findNext [Call_find 0 True, Resize 7, Enter_appendHead 0,
                          Enter_appendReplacement, Call_appendReplacement 7 1,
                          Enter_appendTail, Call_appendTail 6 6, Resize 7,
                          Malloc 56, Memcpy 56] = []"
proof -
  let ?out = "\<lparr>returnStr = Fresh (u16 ''X-b-a-b''), returnSize = 7,
                  trace = [Call_find 0 True, Resize 7, Enter_appendHead 0,
                           Enter_appendReplacement, Call_appendReplacement 7 1,
                           Enter_appendTail, Call_appendTail 6 6, Resize 7,
                           Malloc 56, Memcpy 56]\<rparr>"
  have "(- 3 :: int) < 0" by simp
  from negative_selector_is_first[OF this, of lit "lit_open (u16 ''a'') (u16 ''a-b-a-b'')"
      "u16 ''X''" 1 7 0]
  obtain found st where
    same: "replace lit (lit_open (u16 ''a'') (u16 ''a-b-a-b'')) (u16 ''X'') 1 7 0 (- 3)
     = replace lit (lit_open (u16 ''a'') (u16 ''a-b-a-b'')) (u16 ''X'') 1 7 0 1"
    and s: "search lit (lit_open (u16 ''a'') (u16 ''a-b-a-b'')) 0 (- 3) = (found, 0, st)"
    and once: "found \<longrightarrow>
       (\<forall>out. replace lit (lit_open (u16 ''a'') (u16 ''a-b-a-b'')) (u16 ''X'') 1 7 0 (- 3)
               = Some (Inr out)
          \<longrightarrow> replacements (trace out) = 1 \<and> filter is_findNext (trace out) = [])"
    by blast
  have "fst (search lit (lit_open (u16 ''a'') (u16 ''a-b-a-b'')) 0 (- 3))"
    by code_simp
  with s have found by simp
  have "replace lit (lit_open (u16 ''a'') (u16 ''a-b-a-b'')) (u16 ''X'') 1 7 0 1 = Some (Inr ?out)"
    by code_simp
  with same have run:
    "replace lit (lit_open (u16 ''a'') (u16 ''a-b-a-b'')) (u16 ''X'') 1 7 0 (- 3) = Some (Inr ?out)"
    by simp
  with once \<open>found\<close> have "replacements (trace ?out) = 1 \<and> filter is_findNext (trace ?out) = []"
    by blast
  with same run show ?thesis by simp
qed

section \<open>Selector k: the k-th match only\<close>

lemma appendHead_copies:
  assumes h: "appendHead api s1 n = Inr s2" and n: "0 < n" "n \<le> INT_MAX"
    and g: "uregex_getText api (m_re s1) (m_error_code s1) = (tx, len, m, U_ZERO_ERROR)"
  shows "m_replace_buffer_pos s2 = n \<and> nat n \<le> length (m_replace_buffer s2)
         \<and> take (nat n) (m_replace_buffer s2) = take (nat n) tx"
proof -
  let ?s = "log_event Call_getText (log_event (Enter_appendHead n) s1\<lparr>m_re := m, m_error_code := U_ZERO_ERROR\<rparr>)"
  from h n g obtain s' where
    r: "(if int (length (m_replace_buffer ?s)) < n then resize n ?s else Inr ?s) = Inr s'"
    and t: "n \<le> int (length tx)"
    and s2: "s2 = s'\<lparr>m_replace_buffer := take (nat n) tx @ drop (nat n) (m_replace_buffer s'),
                      m_replace_buffer_pos := to_int n\<rparr>"
    by (auto simp: appendHead_def Let_def bindF_eq_Inr log_event_def split: if_splits)
  have "nat n \<le> length (m_replace_buffer s')"
  proof (cases "int (length (m_replace_buffer ?s)) < n")
    case True
    with r have "resize n ?s = Inr s'" by simp
    from resize_Inr[OF this] show ?thesis by simp
  next
    case False
    with r show ?thesis by auto
  qed
  moreover from t n have "nat n \<le> length tx" by linarith
  ultimately have "nat n \<le> length (take (nat n) tx @ drop (nat n) (m_replace_buffer s'))"
    "take (nat n) (take (nat n) tx @ drop (nat n) (m_replace_buffer s')) = take (nat n) tx"
    by simp_all
  with s2 n show ?thesis
    by (simp add: to_int_id INT_MIN_def del: length_append take_append)
qed

lemma tryToAppendReplacement_nonneg:
  assumes "\<forall>m r l c e. 0 \<le> fst (uregex_appendReplacement api m r l c e)"
    and "tryToAppendReplacement api st r l = Inr (n, st')"
  shows "0 \<le> n"
proof (cases "m_replace_buffer st = []")
  case True
  with assms(2) show ?thesis by (simp add: tryToAppendReplacement_def)
next
  case False
  with assms(2) obtain c w m ec where
    "uregex_appendReplacement api (m_re st) r l c (m_error_code st) = (n, w, m, ec)"
    by (auto simp: tryToAppendReplacement_def Let_def split: prod.splits if_splits)
  with assms(1)[rule_format, of "m_re st" r l c "m_error_code st"] show ?thesis by simp
qed

lemma tryToAppendTail_nonneg:
  assumes "\<forall>m c e. 0 \<le> fst (uregex_appendTail api m c e)"
    and "tryToAppendTail api st = Inr (n, st')"
  shows "0 \<le> n"
proof (cases "m_replace_buffer st = []")
  case True
  with assms(2) show ?thesis by (simp add: tryToAppendTail_def)
next
  case False
  with assms(2) obtain c w m ec where
    "uregex_appendTail api (m_re st) c (m_error_code st) = (n, w, m, ec)"
    by (auto simp: tryToAppendTail_def Let_def split: prod.splits if_splits)
  with assms(1)[rule_format, of "m_re st" c "m_error_code st"] show ?thesis by simp
qed

lemma appendReplacement_untouched:
  assumes "\<forall>m r l c e. 0 \<le> fst (uregex_appendReplacement api m r l c e)"
    and "appendReplacement api st r l = Inr st'"
    and "int k \<le> m_replace_buffer_pos st" "k \<le> length (m_replace_buffer st)"
  shows "untouched k st st'"
proof -
  have "untouched k (log_event Enter_appendReplacement st) st'"
  proof (rule retry_once_untouched[OF in_window_replacement])
    show "retry_once (\<lambda>s. tryToAppendReplacement api s r l) (log_event Enter_appendReplacement st) = Inr st'"
      using assms(2) by (simp add: appendReplacement_retry_once)
    show "0 \<le> n" if "tryToAppendReplacement api s r l = Inr (n, s')" for s n s'
      using assms(1) that by (rule tryToAppendReplacement_nonneg)
  qed (use assms(3,4) in \<open>simp_all add: log_event_def\<close>)
  then show ?thesis by (simp add: untouched_def log_event_def)
qed

lemma appendTail_untouched:
  assumes "\<forall>m c e. 0 \<le> fst (uregex_appendTail api m c e)"
    and "appendTail api st = Inr st'"
    and "int k \<le> m_replace_buffer_pos st" "k \<le> length (m_replace_buffer st)"
  shows "untouched k st st'"
proof -
  have "untouched k (log_event Enter_appendTail st) st'"
  proof (rule retry_once_untouched[OF in_window_tail])
    show "retry_once (tryToAppendTail api) (log_event Enter_appendTail st) = Inr st'"
      using assms(2) by (simp add: appendTail_retry_once)
    show "0 \<le> n" if "tryToAppendTail api s = Inr (n, s')" for s n s'
      using assms(1) that by (rule tryToAppendTail_nonneg)
  qed (use assms(3,4) in \<open>simp_all add: log_event_def\<close>)
  then show ?thesis by (simp add: untouched_def log_event_def)
qed

lemma appendTail_cursor_range:
  assumes "appendTail api st = Inr st'"
  shows "INT_MIN \<le> m_replace_buffer_pos st' \<and> m_replace_buffer_pos st' \<le> INT_MAX"
proof -
  from assms have "retry_once (tryToAppendTail api) (log_event Enter_appendTail st) = Inr st'"
    by (simp add: appendTail_retry_once)
  then show ?thesis
    by (cases rule: retry_once_Inr) simp_all
qed

lemma finish_keeps:
  assumes "finish st = Inr out" and "returnStr out = Fresh b"
    and "m_replace_buffer_pos st \<le> INT_MAX"
    and "int k \<le> m_replace_buffer_pos st" "k \<le> length (m_replace_buffer st)"
  shows "take k b = take k (m_replace_buffer st)"
proof -
  from assms(3,4) have "to_size_t (m_replace_buffer_pos st) = m_replace_buffer_pos st"
    by (intro to_size_t_id) simp_all
  with assms(1,2) have "b = take (nat (m_replace_buffer_pos st)) (m_replace_buffer st)
          @ replicate (nat (m_replace_buffer_pos st) - length (m_replace_buffer st)) 0"
    by (auto simp: finish_def bindF_eq_Inr dest!: resize_Inr)
  moreover from assms(4) have "k \<le> nat (m_replace_buffer_pos st)" by linarith
  ultimately show ?thesis using assms(5) by (simp add: min_def)
qed

lemma head_survives:
  assumes r: "bindF (bindF (bindF (resize n st) (\<lambda>st1. appendHead api st1 k))
                    (\<lambda>st2. appendReplacement api st2 replacement replacementLen))
             (\<lambda>st3. bindF (appendTail api st3) finish) = Inr out"
    and b: "returnStr out = Fresh b"
    and k: "0 \<le> k" "k \<le> INT_MAX"
    and g: "uregex_getText api (m_re st) (m_error_code st) = (tx, len, m, U_ZERO_ERROR)"
    and nr: "\<forall>m r l c e. 0 \<le> fst (uregex_appendReplacement api m r l c e)"
    and nt: "\<forall>m c e. 0 \<le> fst (uregex_appendTail api m c e)"
  shows "take (nat k) b = take (nat k) tx"
proof (cases "k = 0")
  case True
  then show ?thesis by simp
next
  case False
  from r obtain st1 st2 st3 st4 where
    a1: "resize n st = Inr st1" and a2: "appendHead api st1 k = Inr st2"
    and a3: "appendReplacement api st2 replacement replacementLen = Inr st3"
    and a4: "appendTail api st3 = Inr st4" and a5: "finish st4 = Inr out"
    by (auto simp: bindF_eq_Inr)
  from resize_Inr[OF a1] g have "uregex_getText api (m_re st1) (m_error_code st1) = (tx, len, m, U_ZERO_ERROR)"
    by simp
  from appendHead_copies[OF a2 _ k(2) this] False k(1)
  have h: "m_replace_buffer_pos st2 = k" "nat k \<le> length (m_replace_buffer st2)"
    "take (nat k) (m_replace_buffer st2) = take (nat k) tx"
    by simp_all
  from appendReplacement_untouched[OF nr a3, of "nat k"] h k(1)
  have u3: "untouched (nat k) st2 st3" by simp
  then have "int (nat k) \<le> m_replace_buffer_pos st3" "nat k \<le> length (m_replace_buffer st3)"
    by (simp_all add: untouched_def)
  from appendTail_untouched[OF nt a4 this]
  have u4: "untouched (nat k) st3 st4" .
  then have "int (nat k) \<le> m_replace_buffer_pos st4" "nat k \<le> length (m_replace_buffer st4)"
    by (simp_all add: untouched_def)
  from finish_keeps[OF a5 b _ this] appendTail_cursor_range[OF a4]
  have "take (nat k) b = take (nat k) (m_replace_buffer st4)" by simp
  with u3 u4 h(3) show ?thesis by (simp add: untouched_def)
qed

lemma take_store_here:
  assumes "p + length w \<le> length buf" "take k w = out" "length out = k"
  shows "take (p + k) (store buf p w) = take p buf @ out"
proof -
  from assms(2,3) have "k \<le> length w" by (metis length_take min.cobounded2 min_def nat_le_linear)
  with assms show ?thesis by (auto simp: store_def min_def)
qed

lemma ready_log [simp]: "ready P (log_event ev s) = ready P s"
  by (simp add: ready_def log_event_def cursor_inside_def)

lemma hands_over_step:
  assumes h: "hands_over P out attempt" and r: "ready P s" and a: "attempt s = Inr (n, s')"
  obtains w where "n = int (length out)" "P (m_re s')"
    "m_replace_buffer_pos s' = m_replace_buffer_pos s"
    "m_replace_buffer s' = store (m_replace_buffer s) (nat (m_replace_buffer_pos s)) w"
    "int (length w) \<le> int (length (m_replace_buffer s)) - m_replace_buffer_pos s"
    "take (length out) w = take (nat (int (length (m_replace_buffer s)) - m_replace_buffer_pos s)) out"
    "if int (length (m_replace_buffer s)) - m_replace_buffer_pos s < int (length out)
     then m_error_code s' = U_BUFFER_OVERFLOW_ERROR else U_SUCCESS (m_error_code s')"
proof -
  from h r obtain w s'' where "attempt s = Inr (int (length out), s'')"
    "P (m_re s'')" "m_replace_buffer_pos s'' = m_replace_buffer_pos s"
    "m_replace_buffer s'' = store (m_replace_buffer s) (nat (m_replace_buffer_pos s)) w"
    "delivers out (int (length (m_replace_buffer s)) - m_replace_buffer_pos s)
               (int (length out), w, m_error_code s'')"
    unfolding hands_over_def by blast
  with a that show thesis by (simp add: delivers_def)
qed

lemma retry_once_hands_over:
  assumes h: "hands_over P out attempt" and r: "ready P st0"
    and run: "retry_once attempt st0 = Inr st'"
  shows "ready P st' \<and> m_replace_buffer_pos st' = m_replace_buffer_pos st0 + int (length out)
         \<and> take (nat (m_replace_buffer_pos st')) (m_replace_buffer st')
           = take (nat (m_replace_buffer_pos st0)) (m_replace_buffer st0) @ out"
  using run
proof (cases rule: retry_once_Inr)
  case (fits n s1)
  let ?p = "m_replace_buffer_pos st0"
  let ?buf = "m_replace_buffer st0"
  from r have p: "0 \<le> ?p" "?p \<le> int (length ?buf)" "int (length ?buf) \<le> INT_MAX" "?buf \<noteq> []"
    by (simp_all add: ready_def cursor_inside_def)
  from h r fits(1) obtain w where s: "n = int (length out)" "P (m_re s1)"
    "m_replace_buffer_pos s1 = ?p"
    "m_replace_buffer s1 = store ?buf (nat ?p) w"
    "int (length w) \<le> int (length ?buf) - ?p"
    "take (length out) w = take (nat (int (length ?buf) - ?p)) out"
    "if int (length ?buf) - ?p < int (length out)
     then m_error_code s1 = U_BUFFER_OVERFLOW_ERROR else U_SUCCESS (m_error_code s1)"
    by (rule hands_over_step)
  from s(7) fits(2) have ok: "int (length out) \<le> int (length ?buf) - ?p" "U_SUCCESS (m_error_code s1)"
    by (auto split: if_splits)
  with s(6) have tw: "take (length out) w = out" by simp
  from s(5) p have in1: "nat ?p + length w \<le> length ?buf" by linarith
  have l1: "length (m_replace_buffer s1) = length ?buf" using s(4) in1 by (simp add: length_store)
  have "take (nat ?p + length out) (store ?buf (nat ?p) w) = take (nat ?p) ?buf @ out"
    using in1 tw by (rule take_store_here) simp
  moreover have "nat (?p + int (length out)) = nat ?p + length out" using p by (simp add: nat_add_distrib)
  ultimately have "take (nat (?p + int (length out))) (m_replace_buffer s1) = take (nat ?p) ?buf @ out"
    using s(4) by simp
  moreover have "ready P st'"
    using fits(3) s(1,2,3) ok p l1 by (auto simp: ready_def cursor_inside_def)
  ultimately show ?thesis using fits(3) s(1,3) by simp
next
  case (grown n s1 s2 k s3)
  let ?p = "m_replace_buffer_pos st0"
  let ?buf = "m_replace_buffer st0"
  from r have p: "0 \<le> ?p" "?p \<le> int (length ?buf)" "int (length ?buf) \<le> INT_MAX" "?buf \<noteq> []"
    by (simp_all add: ready_def cursor_inside_def)
  from h r grown(1) obtain w where s: "n = int (length out)" "P (m_re s1)"
    "m_replace_buffer_pos s1 = ?p"
    "m_replace_buffer s1 = store ?buf (nat ?p) w"
    "int (length w) \<le> int (length ?buf) - ?p"
    "take (length out) w = take (nat (int (length ?buf) - ?p)) out"
    "if int (length ?buf) - ?p < int (length out)
     then m_error_code s1 = U_BUFFER_OVERFLOW_ERROR else U_SUCCESS (m_error_code s1)"
    by (rule hands_over_step)
  from s(5) p have in1: "nat ?p + length w \<le> length ?buf" by linarith
  have l1: "length (m_replace_buffer s1) = length ?buf" using s(4) in1 by (simp add: length_store)
  have t1: "take (nat ?p) (m_replace_buffer s1) = take (nat ?p) ?buf"
    using s(4) in1 by (simp add: take_store)
  from s(7) grown(2) have more: "int (length ?buf) - ?p < n"
    unfolding s(1) by (auto simp: icu_codes split: if_splits)
  have pq: "nat ?p \<le> nat (m_replace_buffer_pos s1 + n)" "nat ?p \<le> length (m_replace_buffer s1)"
    using p more s(3) l1 by linarith+
  from resize_ok[OF grown(5,3,4)] pq have s2:
    "length (m_replace_buffer s2) = nat (m_replace_buffer_pos s1 + n)"
    "m_replace_buffer_pos s2 = m_replace_buffer_pos s1"
    "take (nat ?p) (m_replace_buffer s2) = take (nat ?p) (m_replace_buffer s1)"
    by simp_all
  from resize_Inr[OF grown(5)] have m2: "m_re s2 = m_re s1" by simp
  let ?s2 = "s2\<lparr>m_error_code := U_ZERO_ERROR\<rparr>"
  have l2: "length (m_replace_buffer s2) = nat ?p + length out"
    using s2(1) s(1,3) p by (simp add: nat_add_distrib)
  have pos: "0 < length out" using more p s(1) by linarith
  have r2: "ready P ?s2"
    using m2 s(2) l2 pos s2(2) s(3) p grown(4) s(1)
    by (auto simp: ready_def cursor_inside_def icu_codes)
  from h r2 grown(6) obtain w2 where s3: "P (m_re s3)"
    "m_replace_buffer_pos s3 = m_replace_buffer_pos ?s2"
    "m_replace_buffer s3 = store (m_replace_buffer ?s2) (nat (m_replace_buffer_pos ?s2)) w2"
    "int (length w2) \<le> int (length (m_replace_buffer ?s2)) - m_replace_buffer_pos ?s2"
    "take (length out) w2 = take (nat (int (length (m_replace_buffer ?s2)) - m_replace_buffer_pos ?s2)) out"
    "if int (length (m_replace_buffer ?s2)) - m_replace_buffer_pos ?s2 < int (length out)
     then m_error_code s3 = U_BUFFER_OVERFLOW_ERROR else U_SUCCESS (m_error_code s3)"
    by (rule hands_over_step)
  have cap2: "int (length (m_replace_buffer ?s2)) - m_replace_buffer_pos ?s2 = int (length out)"
    using l2 s2(2) s(3) p by simp
  from s3(6) cap2 have ok: "U_SUCCESS (m_error_code s3)" by simp
  from s3(4,5) cap2 have lw: "length w2 \<le> length out" and tw: "take (length out) w2 = out" by simp_all
  have in2: "nat ?p + length w2 \<le> length (m_replace_buffer s2)" using lw l2 by simp
  have b3: "m_replace_buffer s3 = store (m_replace_buffer s2) (nat ?p) w2"
    using s3(3) s2(2) s(3) by simp
  have l3: "length (m_replace_buffer s3) = nat ?p + length out"
    using b3 in2 l2 by (simp add: length_store)
  have "take (nat ?p + length out) (store (m_replace_buffer s2) (nat ?p) w2)
        = take (nat ?p) (m_replace_buffer s2) @ out"
    using in2 tw by (rule take_store_here) simp
  with b3 s2(3) t1 have t3: "take (nat ?p + length out) (m_replace_buffer s3) = take (nat ?p) ?buf @ out"
    by simp
  have p3: "m_replace_buffer_pos s3 = ?p" using s3(2) s2(2) s(3) by simp
  have np: "nat (?p + int (length out)) = nat ?p + length out" using p by (simp add: nat_add_distrib)
  have "ready P st'"
    using grown(7,9) s3(1) ok l3 pos p3 p s(1)
    by (auto simp: ready_def cursor_inside_def)
  then show ?thesis using grown(7) p3 s(1) t3 np by simp
qed

lemma hands_over_replacement:
  assumes c: "appends_as api P tx r l outR outT"
  shows "hands_over P outR (\<lambda>s. tryToAppendReplacement api s r l)"
  unfolding hands_over_def
proof (intro allI impI)
  fix s :: "'a vars"
  assume rd: "ready P s"
  let ?p = "m_replace_buffer_pos s"
  let ?buf = "m_replace_buffer s"
  let ?c = "int (length ?buf) - ?p"
  from rd have p: "0 \<le> ?p" "?p \<le> int (length ?buf)" "int (length ?buf) \<le> INT_MAX" "?buf \<noteq> []"
    "P (m_re s)" "U_SUCCESS (m_error_code s)"
    by (simp_all add: ready_def cursor_inside_def)
  then have cap: "to_int ?c = ?c" "0 \<le> ?c"
    by (auto simp: INT_MIN_def intro!: to_int_id)
  obtain n w m' ec' where call: "uregex_appendReplacement api (m_re s) r l ?c (m_error_code s) = (n, w, m', ec')"
    by (cases "uregex_appendReplacement api (m_re s) r l ?c (m_error_code s)") auto
  from c p(5,6) cap(2) call have d: "P m'" "delivers outR ?c (n, w, ec')"
    unfolding appends_as_def by fastforce+
  then have n: "n = int (length outR)" and lw: "int (length w) \<le> ?c"
    by (simp_all add: delivers_def)
  from lw p have "stored_inside s w" by (simp add: stored_inside_def)
  from tryToAppendReplacement_call[OF p(4) _ this, of api r l n m' ec'] call cap(1)
  have "tryToAppendReplacement api s r l =
     Inr (n, s\<lparr>m_re := m', m_error_code := ec',
                m_replace_buffer := store ?buf (nat ?p) w,
                calls := calls s @ [Call_appendReplacement (to_int ?c) n]\<rparr>)"
    by simp
  with d n show "\<exists>w s'. tryToAppendReplacement api s r l = Inr (int (length outR), s')
           \<and> P (m_re s') \<and> m_replace_buffer_pos s' = ?p
           \<and> m_replace_buffer s' = store ?buf (nat ?p) w
           \<and> delivers outR ?c (int (length outR), w, m_error_code s')"
    by auto
qed

lemma hands_over_tail:
  assumes c: "appends_as api P tx r l outR outT"
  shows "hands_over P outT (tryToAppendTail api)"
  unfolding hands_over_def
proof (intro allI impI)
  fix s :: "'a vars"
  assume rd: "ready P s"
  let ?p = "m_replace_buffer_pos s"
  let ?buf = "m_replace_buffer s"
  let ?c = "int (length ?buf) - ?p"
  from rd have p: "0 \<le> ?p" "?p \<le> int (length ?buf)" "int (length ?buf) \<le> INT_MAX" "?buf \<noteq> []"
    "P (m_re s)" "U_SUCCESS (m_error_code s)"
    by (simp_all add: ready_def cursor_inside_def)
  then have cap: "to_int ?c = ?c" "0 \<le> ?c"
    by (auto simp: INT_MIN_def intro!: to_int_id)
  obtain n w m' ec' where call: "uregex_appendTail api (m_re s) ?c (m_error_code s) = (n, w, m', ec')"
    by (cases "uregex_appendTail api (m_re s) ?c (m_error_code s)") auto
  from c p(5,6) cap(2) call have d: "P m'" "delivers outT ?c (n, w, ec')"
    unfolding appends_as_def by fastforce+
  then have n: "n = int (length outT)" and lw: "int (length w) \<le> ?c"
    by (simp_all add: delivers_def)
  from lw p have "stored_inside s w" by (simp add: stored_inside_def)
  from tryToAppendTail_call[OF p(4) _ this, of api n m' ec'] call cap(1)
  have "tryToAppendTail api s =
     Inr (n, s\<lparr>m_re := m', m_error_code := ec',
                m_replace_buffer := store ?buf (nat ?p) w,
                calls := calls s @ [Call_appendTail (to_int ?c) n]\<rparr>)"
    by simp
  with d n show "\<exists>w s'. tryToAppendTail api s = Inr (int (length outT), s')
           \<and> P (m_re s') \<and> m_replace_buffer_pos s' = ?p
           \<and> m_replace_buffer s' = store ?buf (nat ?p) w
           \<and> delivers outT ?c (int (length outT), w, m_error_code s')"
    by auto
qed

lemma appendReplacement_hands_over:
  assumes "appends_as api P tx r l outR outT" "ready P st"
    and "appendReplacement api st r l = Inr st'"
  shows "ready P st' \<and> m_replace_buffer_pos st' = m_replace_buffer_pos st + int (length outR)
         \<and> take (nat (m_replace_buffer_pos st')) (m_replace_buffer st')
           = take (nat (m_replace_buffer_pos st)) (m_replace_buffer st) @ outR"
proof -
  have "ready P (log_event Enter_appendReplacement st)" using assms(2) by simp
  from retry_once_hands_over[OF hands_over_replacement[OF assms(1)] this]
    assms(3)[unfolded appendReplacement_retry_once]
  show ?thesis by (clarsimp simp: log_event_def)
qed

lemma appendTail_hands_over:
  assumes "appends_as api P tx r l outR outT" "ready P st"
    and "appendTail api st = Inr st'"
  shows "ready P st' \<and> m_replace_buffer_pos st' = m_replace_buffer_pos st + int (length outT)
         \<and> take (nat (m_replace_buffer_pos st')) (m_replace_buffer st')
           = take (nat (m_replace_buffer_pos st)) (m_replace_buffer st) @ outT"
proof -
  have "ready P (log_event Enter_appendTail st)" using assms(2) by simp
  from retry_once_hands_over[OF hands_over_tail[OF assms(1)] this]
    assms(3)[unfolded appendTail_retry_once]
  show ?thesis by (clarsimp simp: log_event_def)
qed

lemma appendHead_text:
  assumes a: "appendHead api s1 h = Inr s2"
    and c: "appends_as api P tx r l outR outT"
    and s1: "P (m_re s1)" "m_error_code s1 = U_ZERO_ERROR"
      "length (m_replace_buffer s1) = length tx" "m_replace_buffer_pos s1 = 0"
    and h: "0 \<le> h" "h \<le> int (length tx)" "int (length tx) \<le> INT_MAX"
  shows "P (m_re s2) \<and> m_error_code s2 = U_ZERO_ERROR \<and> m_replace_buffer_pos s2 = h
         \<and> length (m_replace_buffer s2) = length tx
         \<and> take (nat h) (m_replace_buffer s2) = take (nat h) tx"
proof (cases "h = 0")
  case True
  with a s1 show ?thesis by (auto simp: appendHead_def Let_def log_event_def)
next
  case False
  obtain t len m' ec' where g: "uregex_getText api (m_re s1) U_ZERO_ERROR = (t, len, m', ec')"
    by (cases "uregex_getText api (m_re s1) U_ZERO_ERROR") auto
  have "U_SUCCESS U_ZERO_ERROR" by (simp add: icu_codes)
  with c s1(1) g have t: "t = tx" "ec' = U_ZERO_ERROR" "P m'"
    unfolding appends_as_def by fastforce+
  have ti: "to_int h = h" using h by (intro to_int_id) (simp_all add: INT_MIN_def)
  from a False g t s1 h ti
  have "s2 = s1\<lparr>m_re := m', m_error_code := U_ZERO_ERROR,
                 calls := calls s1 @ [Enter_appendHead h, Call_getText],
                 m_replace_buffer := take (nat h) tx @ drop (nat h) (m_replace_buffer s1),
                 m_replace_buffer_pos := h\<rparr>"
    by (simp add: appendHead_def Let_def log_event_def)
  with t s1 h show ?thesis by simp
qed

lemma finish_cut:
  assumes "finish st = Inr out" "returnStr out = Fresh b" "cursor_inside st"
  shows "b = take (nat (m_replace_buffer_pos st)) (m_replace_buffer st)"
proof -
  from assms(3) have p: "0 \<le> m_replace_buffer_pos st"
    "m_replace_buffer_pos st \<le> int (length (m_replace_buffer st))"
    "int (length (m_replace_buffer st)) \<le> INT_MAX"
    by (simp_all add: cursor_inside_def)
  then have "to_size_t (m_replace_buffer_pos st) = m_replace_buffer_pos st"
    by (intro to_size_t_id) simp_all
  with assms(1,2) have "b = take (nat (m_replace_buffer_pos st)) (m_replace_buffer st)
          @ replicate (nat (m_replace_buffer_pos st) - length (m_replace_buffer st)) 0"
    by (auto simp: finish_def bindF_eq_Inr dest!: resize_Inr)
  moreover from p have "nat (m_replace_buffer_pos st) \<le> length (m_replace_buffer st)" by linarith
  ultimately show ?thesis by simp
qed

lemma text_around_match:
  assumes r: "bindF (bindF (bindF (resize (to_size_t originalSize) st) (\<lambda>st1. appendHead api st1 (to_size_t h)))
                    (\<lambda>st2. appendReplacement api st2 replacement replacementLen))
             (\<lambda>st3. bindF (appendTail api st3) finish) = Inr out"
    and b: "returnStr out = Fresh b"
    and st: "m_replace_buffer st = []" "m_replace_buffer_pos st = 0"
      "m_error_code st = U_ZERO_ERROR" "P (m_re st)"
    and c: "appends_as api P tx replacement replacementLen (drop (nat h) (take ms tx) @ rep) (drop me tx)"
    and sz: "originalSize = int (length tx)" "int (length tx) \<le> INT_MAX"
    and h: "0 \<le> h" "nat h \<le> ms" "ms \<le> length tx"
  shows "b = (if tx = [] then [] else take ms tx @ rep @ drop me tx)"
proof -
  from r obtain st1 st2 st3 st4 where
    a1: "resize (to_size_t originalSize) st = Inr st1" and a2: "appendHead api st1 (to_size_t h) = Inr st2"
    and a3: "appendReplacement api st2 replacement replacementLen = Inr st3"
    and a4: "appendTail api st3 = Inr st4" and a5: "finish st4 = Inr out"
    by (auto simp: bindF_eq_Inr)
  from h sz have hb: "h \<le> int (length tx)" "h \<le> INT_MAX" by linarith+
  with h have th: "to_size_t h = h" by (simp add: to_size_t_id)
  from sz have ts: "to_size_t originalSize = int (length tx)" by (simp add: to_size_t_id)
  from resize_Inr[OF a1] st ts have s1: "P (m_re st1)" "m_error_code st1 = U_ZERO_ERROR"
    "length (m_replace_buffer st1) = length tx" "m_replace_buffer_pos st1 = 0"
    by simp_all
  show ?thesis
  proof (cases "tx = []")
    case True
    with h have h0: "h = 0" by simp
    from s1(3) True have e1: "m_replace_buffer st1 = []" by simp
    from a2 h0 th have "st2 = log_event (Enter_appendHead 0) st1"
      by (simp add: appendHead_def Let_def)
    with e1 s1(4) have e2: "m_replace_buffer st2 = []" "m_replace_buffer_pos st2 = 0"
      by (simp_all add: log_event_def)
    from appendReplacement_empty[OF e2, of api replacement replacementLen] a3
    have e3: "m_replace_buffer st3 = []" "m_replace_buffer_pos st3 = 0" by auto
    from appendTail_empty[OF e3, of api] a4
    have e4: "m_replace_buffer st4 = []" "m_replace_buffer_pos st4 = 0" by auto
    then have "cursor_inside st4" by (simp add: cursor_inside_def INT_MAX_def)
    from finish_cut[OF a5 b this] e4 True show ?thesis by simp
  next
    case False
    from appendHead_text[OF a2[unfolded th] c s1 h(1) hb(1) sz(2)]
    have s2: "P (m_re st2)" "m_error_code st2 = U_ZERO_ERROR" "m_replace_buffer_pos st2 = h"
      "length (m_replace_buffer st2) = length tx"
      "take (nat h) (m_replace_buffer st2) = take (nat h) tx"
      by simp_all
    from False s2(4) have "m_replace_buffer st2 \<noteq> []" by auto
    with s2 h hb sz have r2: "ready P st2"
      by (simp add: ready_def cursor_inside_def icu_codes)
    from appendReplacement_hands_over[OF c r2 a3]
    have s3: "ready P st3"
      "take (nat (m_replace_buffer_pos st3)) (m_replace_buffer st3)
           = take (nat (m_replace_buffer_pos st2)) (m_replace_buffer st2) @ drop (nat h) (take ms tx) @ rep"
      by blast+
    from appendTail_hands_over[OF c s3(1) a4]
    have s4: "ready P st4"
      "take (nat (m_replace_buffer_pos st4)) (m_replace_buffer st4)
           = take (nat (m_replace_buffer_pos st3)) (m_replace_buffer st3) @ drop me tx"
      by blast+
    from s4(1) have "cursor_inside st4" by (simp add: ready_def)
    from finish_cut[OF a5 b this] s4(2) s3(2) s2(3,5)
    have "b = (take (nat h) tx @ drop (nat h) (take ms tx) @ rep) @ drop me tx" by simp
    moreover have "take (nat h) tx = take (nat h) (take ms tx)" using h(2) by (simp add: min_def)
    then have "take (nat h) tx @ drop (nat h) (take ms tx) = take ms tx"
      by (simp only: append_take_drop_id)
    ultimately show ?thesis using False by simp
  qed
qed

text \<open>
  C3.  Let the selector \<open>k\<close> be positive and let the search find a \<open>k\<close>-th match.
  \<^item> The search is one \<^verbatim>\<open>uregex_find\<close> and then \<open>k - 1\<close> rounds of \<^verbatim>\<open>uregex_end\<close>
    and a successful \<^verbatim>\<open>uregex_findNext\<close>; \<^verbatim>\<open>end_of_previous_match\<close> is what the
    last \<^verbatim>\<open>uregex_end\<close> returned (0 when \<open>k = 1\<close>).
  \<^item> \<open>replace\<close> returns, and is: \<^verbatim>\<open>appendHead\<close> with size
    \<open>max end_of_previous_match start\<close>, one \<^verbatim>\<open>appendReplacement\<close>, \<^verbatim>\<open>appendTail\<close> and
    the final copy.
  \<^item> In the record of calls, only buffer work lies between the search and the one
    entry into \<^verbatim>\<open>appendReplacement\<close>, and only buffer work follows it: the
    replacement is made on the match the search stopped at, and \<^verbatim>\<open>uregex_findNext\<close>
    is not called again.
  \<^item> When the matcher hands out the text with \<^verbatim>\<open>U_ZERO_ERROR\<close> and never returns a
    negative length, the first \<open>max end_of_previous_match start\<close> units of the result
    are those of the text: everything up to the end of the last skipped match is the
    original text.
  \<^item> The whole result.  Let the search have left \<^verbatim>\<open>U_ZERO_ERROR\<close>, let
    \<open>originalSize\<close> be the length of the matcher's text \<open>tx\<close>, and let the matcher
    append as documented (\<open>appends_as\<close>) at the match the search stopped at:
    \<^verbatim>\<open>uregex_appendReplacement\<close> delivers the text from
    \<open>max end_of_previous_match start\<close> to the start \<open>ms\<close> of the match and then what it
    makes of the replacement, \<open>rep\<close>; \<^verbatim>\<open>uregex_appendTail\<close> delivers the text from
    the end \<open>me\<close> of the match on.  Then the result is
    \<open>take ms tx @ rep @ drop me tx\<close>: the text before the \<open>k\<close>-th match, the
    replacement, the text behind the \<open>k\<close>-th match.  Every unit of the text outside
    the \<open>k\<close>-th match is in the result, in its place and unchanged, and with it
    every other match, earlier or later, whether or not an append had to be repeated
    after an overflow.  Of an empty text the result is empty, since the two append
    functions return at once on an empty buffer.
\<close>

theorem selected_match_only:
  assumes k: "0 < k" and s: "search api regexp start k = (True, e, st)"
  shows "(\<exists>ends. int (length ends) = k - 1
            \<and> calls st = Call_find start True
                 # concat (map (\<lambda>x. [Call_end x, Call_findNext True]) ends)
            \<and> e = last (0 # ends))
       \<and> replace api regexp replacement replacementLen originalSize start k =
           Some (bindF (bindF (bindF (resize (to_size_t originalSize) st)
                                (\<lambda>st1. appendHead api st1 (to_size_t (max e start))))
                         (\<lambda>st2. appendReplacement api st2 replacement replacementLen))
                  (\<lambda>st3. bindF (appendTail api st3) finish))
       \<and> (\<forall>out. replace api regexp replacement replacementLen originalSize start k
                   = Some (Inr out) \<longrightarrow>
            (\<exists>ex1 ex2. trace out = calls st @ Resize (to_size_t originalSize)
                            # Enter_appendHead (to_size_t (max e start)) # ex1
                            @ Enter_appendReplacement # ex2
                 \<and> list_all is_buffer_work ex1 \<and> list_all is_buffer_work ex2)
            \<and> replacements (trace out) = 1
            \<and> length (filter is_findNext (trace out)) = nat (k - 1)
            \<and> (\<forall>b tx len m.
                  returnStr out = Fresh b \<and> 0 \<le> max e start \<and> max e start \<le> INT_MAX
                  \<and> uregex_getText api (m_re st) (m_error_code st) = (tx, len, m, U_ZERO_ERROR)
                  \<and> (\<forall>m r l c e. 0 \<le> fst (uregex_appendReplacement api m r l c e))
                  \<and> (\<forall>m c e. 0 \<le> fst (uregex_appendTail api m c e))
                  \<longrightarrow> take (nat (max e start)) b = take (nat (max e start)) tx)
            \<and> (\<forall>b tx at_match ms me rep.
                  returnStr out = Fresh b
                  \<and> m_error_code st = U_ZERO_ERROR \<and> at_match (m_re st)
                  \<and> appends_as api at_match tx replacement replacementLen
                      (drop (nat (max e start)) (take ms tx) @ rep) (drop me tx)
                  \<and> originalSize = int (length tx) \<and> int (length tx) \<le> INT_MAX
                  \<and> 0 \<le> max e start \<and> nat (max e start) \<le> ms \<and> ms \<le> length tx
                  \<longrightarrow> b = (if tx = [] then [] else take ms tx @ rep @ drop me tx)))"
proof (intro conjI allI impI)
  from search_found[OF s] k
  show sk: "\<exists>ends. int (length ends) = k - 1
            \<and> calls st = Call_find start True
                 # concat (map (\<lambda>x. [Call_end x, Call_findNext True]) ends)
            \<and> e = last (0 # ends)"
    by auto
  from k have "k \<noteq> 0" by simp
  from replace_found_nonzero[OF this s]
  show eq: "replace api regexp replacement replacementLen originalSize start k =
           Some (bindF (bindF (bindF (resize (to_size_t originalSize) st)
                                (\<lambda>st1. appendHead api st1 (to_size_t (max e start))))
                         (\<lambda>st2. appendReplacement api st2 replacement replacementLen))
                  (\<lambda>st3. bindF (appendTail api st3) finish))" .
  fix out
  assume "replace api regexp replacement replacementLen originalSize start k = Some (Inr out)"
  with eq have r: "bindF (bindF (bindF (resize (to_size_t originalSize) st)
                                (\<lambda>st1. appendHead api st1 (to_size_t (max e start))))
                         (\<lambda>st2. appendReplacement api st2 replacement replacementLen))
                  (\<lambda>st3. bindF (appendTail api st3) finish) = Inr out"
    by simp
  from one_replacement_trace[OF r]
  show tr: "\<exists>ex1 ex2. trace out = calls st @ Resize (to_size_t originalSize)
                            # Enter_appendHead (to_size_t (max e start)) # ex1
                            @ Enter_appendReplacement # ex2
                 \<and> list_all is_buffer_work ex1 \<and> list_all is_buffer_work ex2" .
  then obtain ex1 ex2 where t: "trace out = calls st @ Resize (to_size_t originalSize)
                            # Enter_appendHead (to_size_t (max e start)) # ex1
                            @ Enter_appendReplacement # ex2"
    and w: "list_all is_buffer_work ex1" "list_all is_buffer_work ex2"
    by blast
  from sk obtain ends where l: "int (length ends) = k - 1"
    and c: "calls st = Call_find start True
                 # concat (map (\<lambda>x. [Call_end x, Call_findNext True]) ends)"
    by blast
  show "replacements (trace out) = 1"
    using filter_buffer_work[OF w(1)] filter_buffer_work[OF w(2)]
    by (simp add: t c replacements_def filter_skipped)
  have "length (filter is_findNext (trace out)) = length ends"
    using filter_buffer_work[OF w(1)] filter_buffer_work[OF w(2)]
    by (simp add: t c filter_skipped)
  with l show "length (filter is_findNext (trace out)) = nat (k - 1)" by linarith
  show "take (nat (max e start)) b = take (nat (max e start)) tx"
    if a: "returnStr out = Fresh b \<and> 0 \<le> max e start \<and> max e start \<le> INT_MAX
                  \<and> uregex_getText api (m_re st) (m_error_code st) = (tx, len, m, U_ZERO_ERROR)
                  \<and> (\<forall>m r l c e. 0 \<le> fst (uregex_appendReplacement api m r l c e))
                  \<and> (\<forall>m c e. 0 \<le> fst (uregex_appendTail api m c e))"
    for b tx len m
  proof -
    from a have "to_size_t (max e start) = max e start"
      by (intro to_size_t_id) simp_all
    with r have "bindF (bindF (bindF (resize (to_size_t originalSize) st)
                                (\<lambda>st1. appendHead api st1 (max e start)))
                         (\<lambda>st2. appendReplacement api st2 replacement replacementLen))
                  (\<lambda>st3. bindF (appendTail api st3) finish) = Inr out"
      by simp
    from head_survives[OF this] a show ?thesis
      by blast
  qed
  show "b = (if tx = [] then [] else take ms tx @ rep @ drop me tx)"
    if a: "returnStr out = Fresh b
                  \<and> m_error_code st = U_ZERO_ERROR \<and> at_match (m_re st)
                  \<and> appends_as api at_match tx replacement replacementLen
                      (drop (nat (max e start)) (take ms tx) @ rep) (drop me tx)
                  \<and> originalSize = int (length tx) \<and> int (length tx) \<le> INT_MAX
                  \<and> 0 \<le> max e start \<and> nat (max e start) \<le> ms \<and> ms \<le> length tx"
    for b tx at_match ms me rep
  proof -
    from search_buffer[OF s] have e: "m_replace_buffer st = []" "m_replace_buffer_pos st = 0"
      by simp_all
    from a have f: "returnStr out = Fresh b" "m_error_code st = U_ZERO_ERROR" "at_match (m_re st)"
      "appends_as api at_match tx replacement replacementLen
                      (drop (nat (max e start)) (take ms tx) @ rep) (drop me tx)"
      "originalSize = int (length tx)" "int (length tx) \<le> INT_MAX"
      "0 \<le> max e start" "nat (max e start) \<le> ms" "ms \<le> length tx"
      by blast+
    from text_around_match[OF r f(1) e f(2-)] show ?thesis .
  qed
qed

lemma lit_deliver_nonneg: "lit_deliver out c status pending = (n, w, ec) \<Longrightarrow> 0 \<le> n"
  by (auto simp: lit_deliver_def Let_def)

lemma lit_appendReplacement_nonneg:
  "lit_appendReplacement m r l c e = (n, w, m', e') \<Longrightarrow> 0 \<le> n"
  by (auto simp: lit_appendReplacement_def Let_def split: if_splits prod.splits
      dest: lit_deliver_nonneg)

lemma lit_appendTail_nonneg:
  "lit_appendTail m c e = (n, w, m', e') \<Longrightarrow> 0 \<le> n"
  by (auto simp: lit_appendTail_def Let_def split: if_splits prod.splits
      dest: lit_deliver_nonneg)

lemma lit_appends_nonneg:
  "0 \<le> fst (uregex_appendReplacement lit m r l c e)"
  "0 \<le> fst (uregex_appendTail lit m c e)"
proof -
  show "0 \<le> fst (uregex_appendReplacement lit m r l c e)"
    by (cases "lit_appendReplacement m r l c e")
       (auto simp: lit_def dest: lit_appendReplacement_nonneg)
  show "0 \<le> fst (uregex_appendTail lit m c e)"
    by (cases "lit_appendTail m c e") (auto simp: lit_def dest: lit_appendTail_nonneg)
qed

lemma lit_deliver_delivers:
  assumes "U_SUCCESS ec" "0 \<le> c"
  shows "delivers out c (lit_deliver out c ec False)"
proof -
  have "take (length out) (take (nat c) (out @ [0])) = take (nat c) out"
    by (simp add: min_def)
  with assms show ?thesis
    by (auto simp: delivers_def lit_deliver_def Let_def icu_codes)
qed

lemma lit_appends_as:
  assumes m: "fMatch m" "0 \<le> fLastMatchEnd m" "fLastMatchEnd m \<le> fMatchStart m" "0 \<le> fMatchEnd m"
    and l: "l = int (length r)"
  shows "appends_as lit (\<lambda>x. x = m) (fText m) r l
           (drop (nat (fLastMatchEnd m)) (take (nat (fMatchStart m)) (fText m)) @ r)
           (drop (nat (fMatchEnd m)) (fText m))"
  unfolding appends_as_def
proof (intro allI impI conjI)
  show "case uregex_getText lit x ec of (t, len, m', ec') \<Rightarrow> t = fText m \<and> ec' = ec \<and> m' = m"
    if "x = m \<and> U_SUCCESS ec" for x ec
    using that by (simp add: lit_def lit_getText_def icu_codes)
  show "case uregex_appendReplacement lit x r l c ec of
          (n, w, m', ec') \<Rightarrow> m' = m \<and> delivers (drop (nat (fLastMatchEnd m)) (take (nat (fMatchStart m)) (fText m)) @ r) c (n, w, ec')"
    if a: "x = m \<and> U_SUCCESS ec" and c: "0 \<le> c" for x ec and c :: int
  proof -
    let ?out = "drop (nat (fLastMatchEnd m)) (take (nat (fMatchStart m)) (fText m)) @ r"
    from a have ok: "U_SUCCESS ec" "\<not> U_FAILURE ec" "ec \<noteq> U_BUFFER_OVERFLOW_ERROR"
      by (auto simp: icu_codes)
    have out: "take (nat (fMatchStart m - fLastMatchEnd m)) (drop (nat (fLastMatchEnd m)) (fText m))
               = drop (nat (fLastMatchEnd m)) (take (nat (fMatchStart m)) (fText m))"
      using m(2,3) by (simp add: drop_take nat_diff_distrib)
    obtain n w ec' where d: "lit_deliver ?out c ec False = (n, w, ec')"
      by (cases "lit_deliver ?out c ec False") auto
    have "lit_appendReplacement m r l c ec = (n, w, m, ec')"
      using ok m(1) l c d out by (simp add: lit_appendReplacement_def Let_def)
    with a lit_deliver_delivers[OF ok(1) c, of ?out] d show ?thesis
      by (simp add: lit_def)
  qed
  show "case uregex_appendTail lit x c ec of
          (n, w, m', ec') \<Rightarrow> m' = m \<and> delivers (drop (nat (fMatchEnd m)) (fText m)) c (n, w, ec')"
    if a: "x = m \<and> U_SUCCESS ec" and c: "0 \<le> c" for x ec and c :: int
  proof -
    let ?out = "drop (nat (fMatchEnd m)) (fText m)"
    from a have ok: "U_SUCCESS ec" "\<not> U_FAILURE ec" "ec \<noteq> U_BUFFER_OVERFLOW_ERROR"
      by (auto simp: icu_codes)
    obtain n w ec' where d: "lit_deliver ?out c ec False = (n, w, ec')"
      by (cases "lit_deliver ?out c ec False") auto
    have "lit_appendTail m c ec = (n, w, m, ec')"
      using ok m(1,4) c d by (auto simp: lit_appendTail_def Let_def)
    with a lit_deliver_delivers[OF ok(1) c, of ?out] d show ?thesis
      by (simp add: lit_def)
  qed
qed

lemma search_second_a:
  "search lit (lit_open (u16 ''a'') (u16 ''a-b-a-b'')) 0 2 =
     (True, 1,
      \<lparr>m_re = \<lparr>fText = u16 ''a-b-a-b'', fPattern = u16 ''a'', fMatch = True,
               fMatchStart = 4, fMatchEnd = 5, fLastMatchEnd = 1\<rparr>,
       m_replace_buffer = [], m_replace_buffer_pos = 0, m_error_code = U_ZERO_ERROR,
       calls = [Call_find 0 True, Call_end 1, Call_findNext True]\<rparr>)"
  by code_simp

lemma replace_second_a:
  "replace lit (lit_open (u16 ''a'') (u16 ''a-b-a-b'')) (u16 ''X'') 1 7 0 2 =
     Some (Inr \<lparr>returnStr = Fresh (u16 ''a-b-X-b''), returnSize = 7,
                trace = [Call_find 0 True, Call_end 1, Call_findNext True, Resize 7,
                         Enter_appendHead 1, Call_getText,
                         Enter_appendReplacement, Call_appendReplacement 6 4,
                         Enter_appendTail, Call_appendTail 2 2, Resize 7,
                         Malloc 56, Memcpy 56]\<rparr>)"
  by code_simp

lemma search_first_a:
  "search lit (lit_open (u16 ''a'') (u16 ''a-b-a-b'')) 0 1 =
     (True, 0,
      \<lparr>m_re = \<lparr>fText = u16 ''a-b-a-b'', fPattern = u16 ''a'', fMatch = True,
               fMatchStart = 0, fMatchEnd = 1, fLastMatchEnd = 0\<rparr>,
       m_replace_buffer = [], m_replace_buffer_pos = 0, m_error_code = U_ZERO_ERROR,
       calls = [Call_find 0 True]\<rparr>)"
  by code_simp

lemma replace_first_a:
  "replace lit (lit_open (u16 ''a'') (u16 ''a-b-a-b'')) (u16 ''WXYZ'') 4 7 0 1 =
     Some (Inr \<lparr>returnStr = Fresh (u16 ''WXYZ-b-a-b''), returnSize = 10,
                trace = [Call_find 0 True, Resize 7, Enter_appendHead 0,
                         Enter_appendReplacement, Call_appendReplacement 7 4,
                         Enter_appendTail, Call_appendTail 3 6, Resize 10,
                         Call_appendTail 6 6, Resize 10, Malloc 80, Memcpy 80]\<rparr>)"
  by code_simp

theorem selected_match_only_witness:
  "replace lit (lit_open (u16 ''a'') (u16 ''a-b-a-b'')) (u16 ''X'') 1 7 0 2 =
     Some (Inr \<lparr>returnStr = Fresh (u16 ''a-b-X-b''), returnSize = 7,
                trace = [Call_find 0 True, Call_end 1, Call_findNext True, Resize 7,
                         Enter_appendHead 1, Call_getText,
                         Enter_appendReplacement, Call_appendReplacement 6 4,
                         Enter_appendTail, Call_appendTail 2 2, Resize 7,
                         Malloc 56, Memcpy 56]\<rparr>)
   \<and> replacements [Call_find 0 True, Call_end 1, Call_findNext True, Resize 7,
                         Enter_appendHead 1, Call_getText,
                         Enter_appendReplacement, Call_appendReplacement 6 4,
                         Enter_appendTail, Call_appendTail 2 2, Resize 7,
                         Malloc 56, Memcpy 56] = 1
   \<and> take 1 (u16 ''a-b-X-b'') = take 1 (u16 ''a-b-a-b'')
   \<and> u16 ''a-b-X-b'' = take 4 (u16 ''a-b-a-b'') @ u16 ''X'' @ drop 5 (u16 ''a-b-a-b'')
   \<and> replace lit (lit_open (u16 ''a'') (u16 ''a-b-a-b'')) (u16 ''WXYZ'') 4 7 0 1 =
     Some (Inr \<lparr>returnStr = Fresh (u16 ''WXYZ-b-a-b''), returnSize = 10,
                trace = [Call_find 0 True, Resize 7, Enter_appendHead 0,
                         Enter_appendReplacement, Call_appendReplacement 7 4,
                         Enter_appendTail, Call_appendTail 3 6, Resize 10,
                         Call_appendTail 6 6, Resize 10, Malloc 80, Memcpy 80]\<rparr>)
   \<and> u16 ''WXYZ-b-a-b'' = take 0 (u16 ''a-b-a-b'') @ u16 ''WXYZ'' @ drop 1 (u16 ''a-b-a-b'')"
proof -
  let ?m = "\<lparr>fText = u16 ''a-b-a-b'', fPattern = u16 ''a'', fMatch = True,
               fMatchStart = 4, fMatchEnd = 5, fLastMatchEnd = 1\<rparr>"
  let ?st = "\<lparr>m_re = ?m,
       m_replace_buffer = [], m_replace_buffer_pos = 0, m_error_code = U_ZERO_ERROR,
       calls = [Call_find 0 True, Call_end 1, Call_findNext True]\<rparr>"
  let ?m1 = "\<lparr>fText = u16 ''a-b-a-b'', fPattern = u16 ''a'', fMatch = True,
               fMatchStart = 0, fMatchEnd = 1, fLastMatchEnd = 0\<rparr>"
  have g: "uregex_getText lit (m_re ?st) (m_error_code ?st)
           = (u16 ''a-b-a-b'', 7, m_re ?st, U_ZERO_ERROR)"
    by code_simp
  have two: "(0::int) < 2" by simp
  have one: "(0::int) < 1" by simp
  have len: "length (u16 ''a-b-a-b'') = 7" "u16 ''a-b-a-b'' \<noteq> []"
    by (simp_all add: u16_def)
  note inst = selected_match_only[OF two search_second_a, of "u16 ''X''" 1 7,
      THEN conjunct2, THEN conjunct2, rule_format, OF replace_second_a]
  from inst have "replacements [Call_find 0 True, Call_end 1, Call_findNext True, Resize 7,
                         Enter_appendHead 1, Call_getText,
                         Enter_appendReplacement, Call_appendReplacement 6 4,
                         Enter_appendTail, Call_appendTail 2 2, Resize 7,
                         Malloc 56, Memcpy 56] = 1"
    by simp
  moreover from inst have "\<forall>b tx len m.
        Fresh (u16 ''a-b-X-b'') = Fresh b \<and> (0::int) \<le> max 1 0 \<and> max 1 0 \<le> INT_MAX
        \<and> uregex_getText lit (m_re ?st) (m_error_code ?st) = (tx, len, m, U_ZERO_ERROR)
        \<and> (\<forall>m r l c e. 0 \<le> fst (uregex_appendReplacement lit m r l c e))
        \<and> (\<forall>m c e. 0 \<le> fst (uregex_appendTail lit m c e))
        \<longrightarrow> take (nat (max 1 0)) b = take (nat (max 1 0)) tx"
    by simp
  from this[rule_format, of "u16 ''a-b-X-b''" "u16 ''a-b-a-b''" 7 "m_re ?st"] g lit_appends_nonneg
  have "take 1 (u16 ''a-b-X-b'') = take 1 (u16 ''a-b-a-b'')"
    by (simp add: INT_MAX_def)
  moreover have "u16 ''a-b-X-b'' = take 4 (u16 ''a-b-a-b'') @ u16 ''X'' @ drop 5 (u16 ''a-b-a-b'')"
  proof -
    have c: "appends_as lit (\<lambda>x. x = ?m) (u16 ''a-b-a-b'') (u16 ''X'') 1
               (drop (nat (max 1 0)) (take 4 (u16 ''a-b-a-b'')) @ u16 ''X'') (drop 5 (u16 ''a-b-a-b''))"
      using lit_appends_as[of ?m 1 "u16 ''X''"] by (simp add: u16_def)
    note around = inst[THEN conjunct2, THEN conjunct2, THEN conjunct2, THEN conjunct2, rule_format,
        where b = "u16 ''a-b-X-b''" and at_match = "\<lambda>x. x = ?m" and tx = "u16 ''a-b-a-b''"
          and ms = 4 and rep = "u16 ''X''" and me = 5]
    have "u16 ''a-b-X-b'' = (if u16 ''a-b-a-b'' = [] then []
            else take 4 (u16 ''a-b-a-b'') @ u16 ''X'' @ drop 5 (u16 ''a-b-a-b''))"
      by (rule around) (use c len in \<open>simp add: INT_MAX_def\<close>)
    with len show ?thesis by simp
  qed
  moreover have "u16 ''WXYZ-b-a-b'' = take 0 (u16 ''a-b-a-b'') @ u16 ''WXYZ'' @ drop 1 (u16 ''a-b-a-b'')"
  proof -
    have c: "appends_as lit (\<lambda>x. x = ?m1) (u16 ''a-b-a-b'') (u16 ''WXYZ'') 4
               (drop (nat (max 0 0)) (take 0 (u16 ''a-b-a-b'')) @ u16 ''WXYZ'') (drop 1 (u16 ''a-b-a-b''))"
      using lit_appends_as[of ?m1 4 "u16 ''WXYZ''"] by (simp add: u16_def)
    note around = selected_match_only[OF one search_first_a, of "u16 ''WXYZ''" 4 7,
        THEN conjunct2, THEN conjunct2, rule_format, OF replace_first_a,
        THEN conjunct2, THEN conjunct2, THEN conjunct2, THEN conjunct2, rule_format,
        where b = "u16 ''WXYZ-b-a-b''" and at_match = "\<lambda>x. x = ?m1" and tx = "u16 ''a-b-a-b''"
          and ms = 0 and rep = "u16 ''WXYZ''" and me = 1]
    have "u16 ''WXYZ-b-a-b'' = (if u16 ''a-b-a-b'' = [] then []
            else take 0 (u16 ''a-b-a-b'') @ u16 ''WXYZ'' @ drop 1 (u16 ''a-b-a-b''))"
      by (rule around) (use c len in \<open>simp add: INT_MAX_def\<close>)
    with len show ?thesis by simp
  qed
  ultimately show ?thesis using replace_second_a replace_first_a by simp
qed

end
